theory Spec2Isabelle
  imports Main "HOL-Library.Word" "HOL-Library.AList" "HOL-Library.Log_Nat"
begin

section \<open>Strings\<close>

text \<open>
  A JavaScript string is a sequence of UTF-16 code units; \<open>length\<close>, \<open>includes\<close>,
  \<open>slice\<close> and the regular expression \<open>/[A-Z]/g\<close> all work on code units. The literals
  of the source are ASCII apart from a few emoji, which are written out as surrogate pairs.
\<close>

type_synonym jsstring = "16 word list"

definition ascii :: "string \<Rightarrow> jsstring" where
  "ascii s = map (\<lambda>c. of_nat (of_char c)) s"

fun startsWith :: "jsstring \<Rightarrow> jsstring \<Rightarrow> bool" where
  "startsWith s [] = True"
| "startsWith [] (d # p) = False"
| "startsWith (c # s) (d # p) = (c = d \<and> startsWith s p)"

text \<open>\<open>s.includes(p)\<close>: \<open>p\<close> occurs in \<open>s\<close> as a contiguous run of code units.\<close>

fun js_includes :: "jsstring \<Rightarrow> jsstring \<Rightarrow> bool" where
  "js_includes [] p = (p = [])"
| "js_includes (c # s) p = (startsWith (c # s) p \<or> js_includes s p)"

text \<open>The white space and line terminators that \<open>String.prototype.trim\<close> strips.\<close>

definition isWhiteSpace :: "16 word \<Rightarrow> bool" where
  "isWhiteSpace c \<longleftrightarrow>
     c \<in> {0x9, 0xA, 0xB, 0xC, 0xD, 0x20, 0xA0, 0x1680, 0x2028, 0x2029, 0x202F, 0x205F, 0x3000, 0xFEFF}
     \<or> (0x2000 \<le> c \<and> c \<le> 0x200A)"

definition trim :: "jsstring \<Rightarrow> jsstring" where
  "trim s = rev (dropWhile isWhiteSpace (rev (dropWhile isWhiteSpace s)))"

text \<open>\<open>parts.filter(Boolean).join(" ")\<close>: the empty string is the only falsy string.\<close>

fun joinSpace :: "jsstring list \<Rightarrow> jsstring" where
  "joinSpace [] = []"
| "joinSpace [s] = s"
| "joinSpace (s # t # ss) = s @ ascii '' '' @ joinSpace (t # ss)"

definition filterBooleanJoin :: "jsstring list \<Rightarrow> jsstring" where
  "filterBooleanJoin parts = joinSpace (filter (\<lambda>s. s \<noteq> []) parts)"

section \<open>Candidate items (core/searchScraper.ts)\<close>

text \<open>
  \<open>VideoCandidate\<close>. The enriched fields (tags, category, ...) are never set by the resolver
  and are left out. \<open>densityScore\<close> and \<open>densityFlags\<close> are optional in the source.
\<close>

record VideoCandidate =
  vc_videoId :: jsstring
  vc_title :: jsstring
  vc_description :: jsstring
  vc_seconds :: int
  vc_timestamp :: jsstring
  vc_views :: int
  vc_authorName :: jsstring
  vc_authorUrl :: "jsstring option"
  vc_densityScore :: "int option"
  vc_densityFlags :: "jsstring list option"

definition GITHUB_BOOST :: int where "GITHUB_BOOST = 50"
definition LONG_VIDEO_BOOST :: int where "LONG_VIDEO_BOOST = 30"
definition MEDIUM_VIDEO_BOOST :: int where "MEDIUM_VIDEO_BOOST = 15"
definition DOCUMENTATION_BOOST :: int where "DOCUMENTATION_BOOST = 25"
definition ACADEMIC_BOOST :: int where "ACADEMIC_BOOST = 20"
definition EMPTY_DESC_PENALTY :: int where "EMPTY_DESC_PENALTY = - 40"
definition HIGH_VIEW_PENALTY_THRESHOLD :: int where "HIGH_VIEW_PENALTY_THRESHOLD = 500000"
definition CLICKBAIT_PENALTY :: int where "CLICKBAIT_PENALTY = - 100"

definition QUALITY_github :: "jsstring list" where
  "QUALITY_github = map ascii [''github.com'', ''github.io'', ''gitlab.com'', ''bitbucket.org'']"

definition QUALITY_colab :: "jsstring list" where
  "QUALITY_colab = map ascii [''colab.research.google.com'', ''kaggle.com/code'', ''jupyter'']"

definition QUALITY_documentation :: "jsstring list" where
  "QUALITY_documentation =
     map ascii [''documentation'', ''docs'', ''api reference'', ''readme'', ''implementation'']"

definition QUALITY_academic :: "jsstring list" where
  "QUALITY_academic =
     map ascii [''paper'', ''research'', ''arxiv'', ''whitepaper'', ''thesis'', ''algorithm'']"

definition QUALITY_technical :: "jsstring list" where
  "QUALITY_technical =
     map ascii [''source code'', ''repository'', ''npm'', ''pip install'', ''docker'']"

definition CLICKBAIT_SIGNALS :: "jsstring list" where
  "CLICKBAIT_SIGNALS =
     [ascii ''mind-blowing'', ascii ''you won'' @ [0x27] @ ascii ''t believe'', ascii ''insane'',
      ascii ''crazy'', ascii ''!! '', [0xD83D, 0xDD25, 0xD83D, 0xDD25, 0xD83D, 0xDD25],
      ascii ''secrets revealed'', ascii ''changed my life'', ascii ''in just 5 minutes'',
      ascii ''watch this before'', ascii ''nobody tells you'']"

definition FLAG_github :: jsstring where
  "FLAG_github = [0xD83D, 0xDD17] @ ascii '' GitHub Link''"
definition FLAG_notebook :: jsstring where
  "FLAG_notebook = [0xD83D, 0xDCD3] @ ascii '' Notebook Link''"
definition FLAG_documentation :: jsstring where
  "FLAG_documentation = [0xD83D, 0xDCDA] @ ascii '' Documentation''"
definition FLAG_academic :: jsstring where
  "FLAG_academic = [0xD83C, 0xDF93] @ ascii '' Academic''"
definition FLAG_technical :: jsstring where
  "FLAG_technical = [0x2699, 0xFE0F] @ ascii '' Technical''"
definition FLAG_deepDive :: jsstring where
  "FLAG_deepDive = [0x23F1, 0xFE0F] @ ascii '' Deep Dive (15+ min)''"
definition FLAG_detailed :: jsstring where
  "FLAG_detailed = [0x23F1, 0xFE0F] @ ascii '' Detailed (10-15 min)''"
definition FLAG_clickbait :: jsstring where
  "FLAG_clickbait = [0x26A0, 0xFE0F] @ ascii '' Clickbait Signal''"
definition FLAG_highViews :: jsstring where
  "FLAG_highViews = [0x26A0, 0xFE0F] @ ascii '' High Views, Low Info''"
definition FLAG_aggressive :: jsstring where
  "FLAG_aggressive = [0x26A0, 0xFE0F] @ ascii '' Aggressive Title''"

text \<open>
  The running state of \<open>calculateDensityScore\<close>: the local \<open>score\<close> and the \<open>flags\<close>
  array. Each keyword loop of the source has the shape
  \<^verbatim>\<open>for (const s of LIST) { if (hit(s)) { score += w; flags.push(f); break; } }\<close>
  and is the function \<open>firstHit\<close>: the first keyword that hits adds the weight and the flag
  once, and the \<open>break\<close> ends the loop.
\<close>

type_synonym density = "int \<times> jsstring list"

fun firstHit :: "(jsstring \<Rightarrow> bool) \<Rightarrow> int \<Rightarrow> jsstring \<Rightarrow> jsstring list \<Rightarrow> density \<Rightarrow> density" where
  "firstHit hit w f [] st = st"
| "firstHit hit w f (s # rest) st =
     (if hit s then (fst st + w, snd st @ [f]) else firstHit hit w f rest st)"

text \<open>
  \<open>toLowerCase\<close> follows the Unicode case mappings, which are not part of this repository:
  it is a parameter \<open>lower\<close> of the scorer, and every result holds for any such function.
\<close>

text \<open>On strings of ASCII characters \<open>toLowerCase\<close> is this function (used in examples).\<close>

definition lowerASCII :: "jsstring \<Rightarrow> jsstring" where
  "lowerASCII s = map (\<lambda>c. if 0x41 \<le> c \<and> c \<le> 0x5A then c + 0x20 else c) s"

definition positiveSignals :: "(jsstring \<Rightarrow> jsstring) \<Rightarrow> VideoCandidate \<Rightarrow> density" where
  "positiveSignals lower video =
     (let descLower = lower (vc_description video);
          titleLower = lower (vc_title video);
          st = (0, []);
          st = firstHit (\<lambda>signal. js_includes descLower signal) GITHUB_BOOST FLAG_github QUALITY_github st;
          st = firstHit (\<lambda>signal. js_includes descLower signal) GITHUB_BOOST FLAG_notebook QUALITY_colab st;
          st = firstHit (\<lambda>keyword. js_includes descLower keyword \<or> js_includes titleLower keyword)
                 DOCUMENTATION_BOOST FLAG_documentation QUALITY_documentation st;
          st = firstHit (\<lambda>keyword. js_includes descLower keyword \<or> js_includes titleLower keyword)
                 ACADEMIC_BOOST FLAG_academic QUALITY_academic st;
          st = firstHit (\<lambda>keyword. js_includes descLower keyword) 15 FLAG_technical QUALITY_technical st
      in if vc_seconds video > 900 then (fst st + LONG_VIDEO_BOOST, snd st @ [FLAG_deepDive])
         else if vc_seconds video > 600 then (fst st + MEDIUM_VIDEO_BOOST, snd st @ [FLAG_detailed])
         else st)"

text \<open>The number of matches of \<open>/[A-Z]/g\<close> in a string.\<close>

definition countCaps :: "jsstring \<Rightarrow> nat" where
  "countCaps s = length (filter (\<lambda>c. 0x41 \<le> c \<and> c \<le> 0x5A) s)"

text \<open>
  \<open>capsRatio > 0.5\<close>, where \<open>capsRatio\<close> is the quotient of two string lengths: the quotient
  is \<open>NaN\<close> for the empty title (and the test false), and otherwise exceeds one half exactly
  when twice the count exceeds the length.
\<close>

definition capsRatioAboveHalf :: "jsstring \<Rightarrow> bool" where
  "capsRatioAboveHalf title \<longleftrightarrow> title \<noteq> [] \<and> 2 * countCaps title > length title"

definition negativeSignals :: "(jsstring \<Rightarrow> jsstring) \<Rightarrow> VideoCandidate \<Rightarrow> density \<Rightarrow> density" where
  "negativeSignals lower video st0 =
     (let descLower = lower (vc_description video);
          titleLower = lower (vc_title video);
          st = firstHit (\<lambda>signal. js_includes descLower signal \<or> js_includes titleLower signal)
                 CLICKBAIT_PENALTY FLAG_clickbait CLICKBAIT_SIGNALS st0;
          st = (if vc_views video > HIGH_VIEW_PENALTY_THRESHOLD \<and> length (vc_description video) < 100
                then (fst st + EMPTY_DESC_PENALTY, snd st @ [FLAG_highViews]) else st)
      in if capsRatioAboveHalf (vc_title video) \<and> length (vc_title video) > 10
         then (fst st - 20, snd st @ [FLAG_aggressive]) else st)"

definition calculateDensityScore :: "(jsstring \<Rightarrow> jsstring) \<Rightarrow> VideoCandidate \<Rightarrow> density" where
  "calculateDensityScore lower video = negativeSignals lower video (positiveSignals lower video)"

text \<open>
  \<open>rankByDensity\<close>: every item is copied with its score and flags, then sorted with the
  comparator \<open>(b.densityScore || 0) - (a.densityScore || 0)\<close>. \<open>Array.prototype.sort\<close> is a
  stable sort, so the result is the stable sort by descending score.
\<close>

definition withDensity :: "(jsstring \<Rightarrow> jsstring) \<Rightarrow> VideoCandidate \<Rightarrow> VideoCandidate" where
  "withDensity lower v =
     (let r = calculateDensityScore lower v
      in v\<lparr>vc_densityScore := Some (fst r), vc_densityFlags := Some (snd r)\<rparr>)"

definition scoreOrZero :: "VideoCandidate \<Rightarrow> int" where
  "scoreOrZero v = (case vc_densityScore v of None \<Rightarrow> 0 | Some s \<Rightarrow> s)"

definition rankByDensity :: "(jsstring \<Rightarrow> jsstring) \<Rightarrow> VideoCandidate list \<Rightarrow> VideoCandidate list" where
  "rankByDensity lower videos = sort_key (\<lambda>v. - scoreOrZero v) (map (withDensity lower) videos)"

definition filterByDuration :: "VideoCandidate list \<Rightarrow> int \<Rightarrow> VideoCandidate list" where
  "filterByDuration videos minSeconds = filter (\<lambda>v. vc_seconds v \<ge> minSeconds) videos"

section \<open>JavaScript numbers\<close>

text \<open>
  A JavaScript number is an IEEE 754 double. Every finite double is a rational, and division
  and multiplication return the double nearest to the exact result, ties to the even
  significand (53 bits). \<open>binade x\<close> is the exponent \<open>e\<close> with \<open>2^e \<le> x < 2^(e+1)\<close>. The
  model covers the normal range, which the quotients and products of array lengths below
  never leave; \<open>NaN\<close> (from \<open>0 / 0\<close>) is written as \<open>None\<close> where it can arise.
\<close>

definition binade :: "rat \<Rightarrow> int" where
  "binade x =
     (let (a, b) = quotient_of x; d = bitlen a - bitlen b
      in if 2 powi d \<le> x then d else d - 1)"

definition roundTiesToEven :: "rat \<Rightarrow> int" where
  "roundTiesToEven y =
     (let f = \<lfloor>y\<rfloor>; r = y - of_int f
      in if r < 1 / 2 then f else if r > 1 / 2 then f + 1 else if even f then f else f + 1)"

definition nearest53 :: "rat \<Rightarrow> rat" where
  "nearest53 x =
     (if x = 0 then 0
      else let q = 2 powi (binade x - 52) in of_int (roundTiesToEven (x / q)) * q)"

definition double_round :: "rat \<Rightarrow> rat" where
  "double_round x = sgn x * nearest53 \<bar>x\<bar>"

definition fdiv :: "rat \<Rightarrow> rat \<Rightarrow> rat option" where
  "fdiv a b = (if b = 0 then None else Some (double_round (a / b)))"

definition fmul :: "rat \<Rightarrow> rat \<Rightarrow> rat" where
  "fmul a b = double_round (a * b)"

text \<open>\<open>Math.round\<close>: the nearest integer, a tie going up.\<close>

definition Math_round :: "rat \<Rightarrow> int" where
  "Math_round x = \<lfloor>x + 1 / 2\<rfloor>"

section \<open>Shared types (core/types.ts, engine/preferences.ts)\<close>

datatype VideoSource = anchor_playlist | gap_fill | one_shot | first_principle

record PlaylistEntry =
  pe_position :: nat
  pe_videoId :: jsstring
  pe_title :: jsstring
  pe_channelName :: jsstring
  pe_durationSeconds :: int
  pe_durationDisplay :: jsstring
  pe_topicMatched :: jsstring
  pe_source :: VideoSource

record AnchorVideo =
  av_videoId :: jsstring
  av_title :: jsstring
  av_durationSeconds :: int
  av_durationDisplay :: jsstring
  av_position :: nat

record AnchorPlaylist =
  ap_playlistId :: jsstring
  ap_playlistTitle :: jsstring
  ap_channelName :: jsstring
  ap_videoCount :: nat
  ap_videos :: "AnchorVideo list"
  ap_coverageScore :: int
  ap_matchedTopics :: "jsstring list"
  ap_unmatchedTopics :: "jsstring list"

record DurationConfig =
  minSeconds :: int
  maxSeconds :: int
  targetPerTopic :: jsstring

record SearchModifiers =
  languageSuffix :: jsstring
  experienceLevel :: jsstring
  duration :: DurationConfig
  modeLabel :: jsstring
  modeKeywords :: jsstring

section \<open>The external collaborators\<close>

text \<open>The results of yt-search (types/yt-search.d.ts); a \<open>?\<close> field is an option.\<close>

record Duration =
  d_seconds :: int
  d_timestamp :: jsstring

record Author =
  a_name :: "jsstring option"
  a_url :: "jsstring option"

record VideoResult =
  vr_videoId :: jsstring
  vr_title :: jsstring
  vr_description :: "jsstring option"
  vr_duration :: "Duration option"
  vr_views :: "int option"
  vr_author :: "Author option"

record PlaylistResult =
  pr_listId :: jsstring
  pr_title :: jsstring
  pr_author :: "Author option"

text \<open>
  The source guards \<open>result.videos || []\<close> and \<open>searchResult.playlists || []\<close>, so either
  array may be missing; \<open>getPlaylistVideos\<close> also guards a missing result.
\<close>

record SearchResult =
  sr_videos :: "VideoResult list option"
  sr_playlists :: "PlaylistResult list option"

text \<open>An awaited call either throws (the promise rejects) or resolves.\<close>

datatype 'a awaited = Threw | Resolved 'a

datatype error = TypeError

text \<open>
  The input of the reranker. The source renders the submitted candidates into one string
  (\<open>prepareForLLMRerank\<close>, which keeps at most five) and then into a prompt; the model hands
  the collaborator the candidates themselves.
\<close>

record RerankerInput =
  ri_candidates :: "VideoCandidate list"
  ri_userRole :: jsstring
  ri_topic :: jsstring
  ri_experienceLevel :: jsstring

record RerankerResult =
  rr_winnerId :: "jsstring option"
  rr_reasoning :: "jsstring option"
  rr_fallbackUsed :: bool

text \<open>What \<open>safeParseJsonObject<{winnerId: string; reasoning: string}>\<close> gives.\<close>

record WinnerJson =
  wj_winnerId :: "jsstring option"
  wj_reasoning :: "jsstring option"

text \<open>Every external call made so far, in order.\<close>

datatype call = Search jsstring | ListFetch jsstring | Generate RerankerInput

text \<open>
  Everything the engine does not compute itself. The network collaborators answer as they
  like: their answer may depend on the number of external calls made before (the length of
  the trace) as well as on the argument, so a repeated query need not get the same answer.
  The library functions are pure:
  \<^item> \<open>toLowerCase\<close>;
  \<^item> \<open>analyzeQuery\<close>, of which the resolver only reads \<open>smartQuery.primary\<close>, a text
    transform whose result only goes to the catalog search;
  \<^item> \<open>fuseSearch titles query\<close>, the results of \<open>new Fuse(items, {threshold: 0.4,
    distance: 100, includeScore: true, keys: ["title"]}).search(query)\<close> for items with these
    titles, best first, each a pair of the index of the item and its score (missing when
    \<open>undefined\<close>);
  \<^item> \<open>safeParseJsonObject\<close>.
\<close>

record world =
  toLowerCase :: "jsstring \<Rightarrow> jsstring"
  analyzeQuery :: "jsstring \<Rightarrow> jsstring"
  fuseSearch :: "jsstring list \<Rightarrow> jsstring \<Rightarrow> (nat \<times> rat option) list"
  ytSearch :: "nat \<Rightarrow> jsstring \<Rightarrow> SearchResult option awaited"
  ytSearchList :: "nat \<Rightarrow> jsstring \<Rightarrow> VideoResult list option option awaited"
  GEMINI_API_KEY :: bool
  generateContentWithFailover :: "nat \<Rightarrow> RerankerInput \<Rightarrow> jsstring awaited"
  safeParseJsonObject :: "jsstring \<Rightarrow> WinnerJson option"

text \<open>Fuse only returns items of the collection it indexed.\<close>

definition fuse_search :: "world \<Rightarrow> jsstring list \<Rightarrow> jsstring \<Rightarrow> (nat \<times> rat option) list" where
  "fuse_search w titles query = filter (\<lambda>r. fst r < length titles) (fuseSearch w titles query)"

text \<open>The double written \<open>0.4\<close>.\<close>

definition MATCH_THRESHOLD :: rat where
  "MATCH_THRESHOLD = double_round (4 / 10)"

text \<open>
  \<open>results.length > 0 && results[0].score !== undefined && results[0].score < 0.4\<close>, the test
  of both \<open>scorePlaylistCoverage\<close> and \<open>mapTopicsToAnchor\<close>.
\<close>

definition bestMatch :: "(nat \<times> rat option) list \<Rightarrow> (nat \<times> rat) option" where
  "bestMatch results =
     (case results of
        [] \<Rightarrow> None
      | (i, None) # rest \<Rightarrow> None
      | (i, Some score) # rest \<Rightarrow> if score < MATCH_THRESHOLD then Some (i, score) else None)"

section \<open>The reranker (core/geminiReranker.ts)\<close>

definition nullResult :: RerankerResult where
  "nullResult = \<lparr>rr_winnerId = None, rr_reasoning = None, rr_fallbackUsed = True\<rparr>"

text \<open>
  \<open>vibeCheckRerank\<close> never throws: without an API key it returns at once, and the call and
  the parsing are inside its own \<open>try\<close>. A winner is returned only when the parsed
  \<open>winnerId\<close> is truthy and has length 11.
\<close>

definition vibeCheckRerank :: "world \<Rightarrow> RerankerInput \<Rightarrow> call list \<Rightarrow> RerankerResult \<times> call list" where
  "vibeCheckRerank w input tr =
     (if \<not> GEMINI_API_KEY w then (nullResult, tr)
      else case generateContentWithFailover w (length tr) input of
        Threw \<Rightarrow> (nullResult, tr @ [Generate input])
      | Resolved txt \<Rightarrow>
          (case safeParseJsonObject w txt of
             None \<Rightarrow> (nullResult, tr @ [Generate input])
           | Some data \<Rightarrow>
               (case wj_winnerId data of
                  None \<Rightarrow> (nullResult, tr @ [Generate input])
                | Some wid \<Rightarrow>
                    if wid \<noteq> [] \<and> length wid = 11
                    then (\<lparr>rr_winnerId = Some wid,
                           rr_reasoning =
                             (case wj_reasoning data of
                                None \<Rightarrow> Some (ascii ''Selected by Gemini Reranker'')
                              | Some r \<Rightarrow>
                                  if r = [] then Some (ascii ''Selected by Gemini Reranker'') else Some r),
                           rr_fallbackUsed = False\<rparr>, tr @ [Generate input])
                    else (nullResult, tr @ [Generate input]))))"

section \<open>The resolver (engine/gapFiller.ts)\<close>

definition USE_RERANKER :: bool where
  "USE_RERANKER = True"

text \<open>The conversion of a yt-search result, with the defaults of the source.\<close>

definition toCandidate :: "VideoResult \<Rightarrow> VideoCandidate" where
  "toCandidate v =
     \<lparr>vc_videoId = vr_videoId v,
      vc_title = vr_title v,
      vc_description = (case vr_description v of None \<Rightarrow> [] | Some d \<Rightarrow> d),
      vc_seconds = (case vr_duration v of None \<Rightarrow> 0 | Some d \<Rightarrow> d_seconds d),
      vc_timestamp =
        (case vr_duration v of
           None \<Rightarrow> ascii ''0:00''
         | Some d \<Rightarrow> if d_timestamp d = [] then ascii ''0:00'' else d_timestamp d),
      vc_views = (case vr_views v of None \<Rightarrow> 0 | Some n \<Rightarrow> n),
      vc_authorName =
        (case vr_author v of
           None \<Rightarrow> ascii ''Unknown''
         | Some a \<Rightarrow>
             (case a_name a of
                None \<Rightarrow> ascii ''Unknown''
              | Some n \<Rightarrow> if n = [] then ascii ''Unknown'' else n)),
      vc_authorUrl = (case vr_author v of None \<Rightarrow> None | Some a \<Rightarrow> a_url a),
      vc_densityScore = None,
      vc_densityFlags = None\<rparr>"

text \<open>
  \<open>filterByDuration(candidates, min).filter(v => v.duration.seconds <= max)\<close> and the
  relaxed pool \<open>filtered.length > 0 ? filtered : filterByDuration(candidates, 60)\<close>.
\<close>

definition durationWindow :: "VideoCandidate list \<Rightarrow> SearchModifiers \<Rightarrow> VideoCandidate list" where
  "durationWindow candidates modifiers =
     filter (\<lambda>v. vc_seconds v \<le> maxSeconds (duration modifiers))
       (filterByDuration candidates (minSeconds (duration modifiers)))"

definition durationPool :: "VideoCandidate list \<Rightarrow> SearchModifiers \<Rightarrow> VideoCandidate list" where
  "durationPool candidates modifiers =
     (let filtered = durationWindow candidates modifiers
      in if length filtered > 0 then filtered else filterByDuration candidates 60)"

definition toEntry :: "VideoCandidate \<Rightarrow> jsstring \<Rightarrow> nat \<Rightarrow> PlaylistEntry" where
  "toEntry winner topic position =
     \<lparr>pe_position = position,
      pe_videoId = vc_videoId winner,
      pe_title = vc_title winner,
      pe_channelName = vc_authorName winner,
      pe_durationSeconds = vc_seconds winner,
      pe_durationDisplay = vc_timestamp winner,
      pe_topicMatched = topic,
      pe_source = gap_fill\<rparr>"

text \<open>
  The argument of \<open>vibeCheckRerank\<close>: \<open>prepareForLLMRerank\<close> renders at most five of the
  candidates it is given (here \<open>ranked.slice(0, 5)\<close>).
\<close>

definition rerankerInput :: "VideoCandidate list \<Rightarrow> jsstring \<Rightarrow> SearchModifiers \<Rightarrow> RerankerInput" where
  "rerankerInput submitted topic modifiers =
     \<lparr>ri_candidates = take 5 submitted,
      ri_userRole = ascii ''Student'',
      ri_topic = topic,
      ri_experienceLevel = experienceLevel modifiers\<rparr>"

text \<open>
  \<open>pickBestVideo\<close>. Reading \<open>ranked[0].videoId\<close> of an empty array would throw a
  \<open>TypeError\<close>; the model keeps that branch. \<open>ranked.find(...) || ranked[0]\<close> looks the
  winner up in the whole ranked pool.
\<close>

definition pickBestVideo ::
  "world \<Rightarrow> VideoResult list \<Rightarrow> jsstring \<Rightarrow> SearchModifiers \<Rightarrow> nat \<Rightarrow> call list
     \<Rightarrow> (error + PlaylistEntry option) \<times> call list" where
  "pickBestVideo w rawVideos topic modifiers position tr =
     (let candidates = map toCandidate (take 15 rawVideos);
          pool = durationPool candidates modifiers
      in if length pool = 0 then (Inr None, tr)
         else
           (case rankByDensity (toLowerCase w) pool of
              [] \<Rightarrow> (Inl TypeError, tr)
            | best # others \<Rightarrow>
                (let ranked = best # others;
                     (winnerId, tr') =
                       (if USE_RERANKER \<and> length ranked \<ge> 3
                        then
                          (let (reranked, tr') =
                                 vibeCheckRerank w (rerankerInput (take 5 ranked) topic modifiers) tr
                           in (case rr_winnerId reranked of
                                 None \<Rightarrow> (vc_videoId best, tr')
                               | Some wid \<Rightarrow> if wid \<noteq> [] then (wid, tr') else (vc_videoId best, tr')))
                        else (vc_videoId best, tr));
                     winner = (case find (\<lambda>v. vc_videoId v = winnerId) ranked of
                                 Some v \<Rightarrow> v
                               | None \<Rightarrow> best)
                 in (Inr (Some (toEntry winner topic position)), tr'))))"

text \<open>
  \<open>searchForTopic\<close>. Both catalog calls are awaited inside the \<open>try\<close>: a rejection, or the
  \<open>TypeError\<close> of reading \<open>.videos\<close> of a missing result, ends in the \<open>catch\<close> and gives
  \<open>null\<close>. The promise of \<open>pickBestVideo\<close> is returned without \<open>await\<close>, so an error of
  \<open>pickBestVideo\<close> is the error of \<open>searchForTopic\<close>.
\<close>

definition searchForTopic ::
  "world \<Rightarrow> jsstring \<Rightarrow> jsstring \<Rightarrow> SearchModifiers \<Rightarrow> nat \<Rightarrow> call list
     \<Rightarrow> (error + PlaylistEntry option) \<times> call list" where
  "searchForTopic w topic subject modifiers position tr =
     (let contextualTopic = subject @ ascii '' '' @ topic;
          searchQuery = filterBooleanJoin [analyzeQuery w contextualTopic, languageSuffix modifiers];
          tr1 = tr @ [Search searchQuery]
      in case ytSearch w (length tr) searchQuery of
           Threw \<Rightarrow> (Inr None, tr1)
         | Resolved None \<Rightarrow> (Inr None, tr1)
         | Resolved (Some result) \<Rightarrow>
             (let videos = (case sr_videos result of None \<Rightarrow> [] | Some vs \<Rightarrow> vs)
              in if length videos = 0
                 then
                   (let fallbackQuery = trim (topic @ ascii '' '' @ languageSuffix modifiers);
                        tr2 = tr1 @ [Search fallbackQuery]
                    in case ytSearch w (length tr1) fallbackQuery of
                         Threw \<Rightarrow> (Inr None, tr2)
                       | Resolved None \<Rightarrow> (Inr None, tr2)
                       | Resolved (Some fallbackResult) \<Rightarrow>
                           (case sr_videos fallbackResult of
                              None \<Rightarrow> (Inr None, tr2)
                            | Some vs \<Rightarrow>
                                if length vs = 0 then (Inr None, tr2)
                                else pickBestVideo w vs topic modifiers position tr2))
                 else pickBestVideo w videos topic modifiers position tr1))"

section \<open>Gap filler and scratch builder (engine/gapFiller.ts)\<close>

record GapFillResult =
  entries :: "PlaylistEntry list"
  gapsFound :: nat
  gapsFilled :: nat
  gapsFailed :: "jsstring list"

record TopicMapping =
  tm_topic :: jsstring
  tm_position :: nat
  tm_anchorVideo :: "AnchorVideo option"
  tm_isGap :: bool
  tm_matchScore :: "rat option"

text \<open>\<open>tableOfContents.map((topic, position) => ...)\<close> over one Fuse index of the anchor's titles.\<close>

definition mapTopic :: "world \<Rightarrow> AnchorVideo list \<Rightarrow> nat \<times> jsstring \<Rightarrow> TopicMapping" where
  "mapTopic w anchorVideos pt =
     (case bestMatch (fuse_search w (map av_title anchorVideos) (snd pt)) of
        Some (i, score) \<Rightarrow>
          \<lparr>tm_topic = snd pt, tm_position = fst pt, tm_anchorVideo = Some (anchorVideos ! i),
           tm_isGap = False, tm_matchScore = Some score\<rparr>
      | None \<Rightarrow>
          \<lparr>tm_topic = snd pt, tm_position = fst pt, tm_anchorVideo = None,
           tm_isGap = True, tm_matchScore = None\<rparr>)"

definition mapTopicsToAnchor :: "world \<Rightarrow> jsstring list \<Rightarrow> AnchorVideo list \<Rightarrow> TopicMapping list" where
  "mapTopicsToAnchor w tableOfContents anchorVideos =
     map (mapTopic w anchorVideos) (enumerate 0 tableOfContents)"

text \<open>
  \<open>gapEntries\<close> is a \<open>Map<number, PlaylistEntry>\<close>: an association list with one pair per
  key, \<open>set\<close> is \<open>AList.update\<close>, \<open>size\<close> the number of pairs.
\<close>

type_synonym gapMap = "(nat \<times> PlaylistEntry) list"

text \<open>The loop \<open>for (const gap of gaps)\<close> of \<open>fillGaps\<close>; an error of the resolver ends it.\<close>

fun fillLoop ::
  "world \<Rightarrow> jsstring \<Rightarrow> SearchModifiers \<Rightarrow> TopicMapping list \<Rightarrow> jsstring list \<Rightarrow> gapMap \<Rightarrow> call list
     \<Rightarrow> (error + jsstring list \<times> gapMap) \<times> call list" where
  "fillLoop w subject modifiers [] failed gapEntries tr = (Inr (failed, gapEntries), tr)"
| "fillLoop w subject modifiers (gap # gaps) failed gapEntries tr =
     (case searchForTopic w (tm_topic gap) subject modifiers (tm_position gap) tr of
        (Inl e, tr') \<Rightarrow> (Inl e, tr')
      | (Inr (Some entry), tr') \<Rightarrow>
          fillLoop w subject modifiers gaps failed (AList.update (tm_position gap) entry gapEntries) tr'
      | (Inr None, tr') \<Rightarrow>
          fillLoop w subject modifiers gaps (failed @ [tm_topic gap]) gapEntries tr')"

text \<open>The loop \<open>for (const mapping of mappings)\<close> of \<open>resequence\<close>.\<close>

fun mergeLoop :: "AnchorPlaylist \<Rightarrow> gapMap \<Rightarrow> TopicMapping list \<Rightarrow> PlaylistEntry list \<Rightarrow> PlaylistEntry list" where
  "mergeLoop anchor gapEntries [] acc = acc"
| "mergeLoop anchor gapEntries (mapping # mappings) acc =
     (case (tm_isGap mapping, tm_anchorVideo mapping) of
        (False, Some anchorVideo) \<Rightarrow>
          mergeLoop anchor gapEntries mappings
            (acc @ [\<lparr>pe_position = tm_position mapping,
                     pe_videoId = av_videoId anchorVideo,
                     pe_title = av_title anchorVideo,
                     pe_channelName = ap_channelName anchor,
                     pe_durationSeconds = av_durationSeconds anchorVideo,
                     pe_durationDisplay = av_durationDisplay anchorVideo,
                     pe_topicMatched = tm_topic mapping,
                     pe_source = anchor_playlist\<rparr>])
      | _ \<Rightarrow>
          (case map_of gapEntries (tm_position mapping) of
             Some entry \<Rightarrow> mergeLoop anchor gapEntries mappings (acc @ [entry])
           | None \<Rightarrow> mergeLoop anchor gapEntries mappings acc))"

text \<open>\<open>entries.forEach((e, i) => { e.position = i; })\<close>.\<close>

definition renumber :: "PlaylistEntry list \<Rightarrow> PlaylistEntry list" where
  "renumber es = map (\<lambda>(i, e). e\<lparr>pe_position := i\<rparr>) (enumerate 0 es)"

text \<open>
  \<open>resequence\<close>: merge, stable sort by position, renumber. The objects renumbered in place
  are pairwise distinct (an anchor entry is fresh, and each gap entry is stored under one key
  and read once), so the mutation is the functional update.
\<close>

definition resequence :: "TopicMapping list \<Rightarrow> AnchorPlaylist \<Rightarrow> gapMap \<Rightarrow> PlaylistEntry list" where
  "resequence mappings anchor gapEntries =
     renumber (sort_key pe_position (mergeLoop anchor gapEntries mappings []))"

definition fillGaps ::
  "world \<Rightarrow> AnchorPlaylist \<Rightarrow> jsstring list \<Rightarrow> jsstring \<Rightarrow> SearchModifiers \<Rightarrow> call list
     \<Rightarrow> (error + GapFillResult) \<times> call list" where
  "fillGaps w anchor tableOfContents subject modifiers tr =
     (let mappings = mapTopicsToAnchor w tableOfContents (ap_videos anchor);
          gaps = filter tm_isGap mappings
      in case fillLoop w subject modifiers gaps [] [] tr of
           (Inl e, tr') \<Rightarrow> (Inl e, tr')
         | (Inr (failed, gapEntries), tr') \<Rightarrow>
             (Inr \<lparr>entries = resequence mappings anchor gapEntries,
                   gapsFound = length gaps,
                   gapsFilled = length gapEntries,
                   gapsFailed = failed\<rparr>, tr'))"

text \<open>The loop \<open>for (let i = 0; i < tableOfContents.length; i++)\<close> of \<open>buildFromScratch\<close>,
  from index \<open>i\<close> on.\<close>

fun scratchLoop ::
  "world \<Rightarrow> jsstring \<Rightarrow> SearchModifiers \<Rightarrow> nat \<Rightarrow> jsstring list \<Rightarrow> PlaylistEntry list \<Rightarrow> jsstring list
     \<Rightarrow> call list \<Rightarrow> (error + PlaylistEntry list \<times> jsstring list) \<times> call list" where
  "scratchLoop w subject modifiers i [] es failed tr = (Inr (es, failed), tr)"
| "scratchLoop w subject modifiers i (topic # topics) es failed tr =
     (case searchForTopic w topic subject modifiers i tr of
        (Inl e, tr') \<Rightarrow> (Inl e, tr')
      | (Inr (Some entry), tr') \<Rightarrow>
          scratchLoop w subject modifiers (i + 1) topics (es @ [entry]) failed tr'
      | (Inr None, tr') \<Rightarrow>
          scratchLoop w subject modifiers (i + 1) topics es (failed @ [topic]) tr')"

definition buildFromScratch ::
  "world \<Rightarrow> jsstring list \<Rightarrow> jsstring \<Rightarrow> SearchModifiers \<Rightarrow> call list
     \<Rightarrow> (error + GapFillResult) \<times> call list" where
  "buildFromScratch w tableOfContents subject modifiers tr =
     (case scratchLoop w subject modifiers 0 tableOfContents [] [] tr of
        (Inl e, tr') \<Rightarrow> (Inl e, tr')
      | (Inr (es, failed), tr') \<Rightarrow>
          (Inr \<lparr>entries = es,
                gapsFound = length tableOfContents,
                gapsFilled = length es,
                gapsFailed = failed\<rparr>, tr'))"

section \<open>Anchor hunter (engine/anchorHunter.ts)\<close>

record PlaylistVideoItem =
  pv_videoId :: jsstring
  pv_title :: jsstring
  pv_duration :: "Duration option"

text \<open>\<open>coverageScore\<close> is \<open>None\<close> when it is \<open>NaN\<close>, which \<open>Math.round\<close> hands through.\<close>

record CoverageScore =
  coverageScore :: "int option"
  matchedTopics :: "jsstring list"
  unmatchedTopics :: "jsstring list"

record AnchorHuntResult =
  found :: bool
  anchor :: "AnchorPlaylist option"
  fallbackChannels :: "jsstring list option"
  searchesPerformed :: nat

definition MIN_COVERAGE_THRESHOLD :: rat where
  "MIN_COVERAGE_THRESHOLD = 1 / 2"

text \<open>The loop \<open>for (const topic of tableOfContents)\<close> of \<open>scorePlaylistCoverage\<close>.\<close>

fun coverLoop ::
  "world \<Rightarrow> jsstring list \<Rightarrow> jsstring list \<Rightarrow> jsstring list \<Rightarrow> jsstring list
     \<Rightarrow> jsstring list \<times> jsstring list" where
  "coverLoop w titles [] matched unmatched = (matched, unmatched)"
| "coverLoop w titles (topic # topics) matched unmatched =
     (if bestMatch (fuse_search w titles topic) \<noteq> None
      then coverLoop w titles topics (matched @ [topic]) unmatched
      else coverLoop w titles topics matched (unmatched @ [topic]))"

definition scorePlaylistCoverage :: "world \<Rightarrow> PlaylistVideoItem list \<Rightarrow> jsstring list \<Rightarrow> CoverageScore" where
  "scorePlaylistCoverage w playlistVideos tableOfContents =
     (let (matched, unmatched) = coverLoop w (map pv_title playlistVideos) tableOfContents [] []
      in \<lparr>coverageScore =
             (case fdiv (of_nat (length matched)) (of_nat (length tableOfContents)) of
                None \<Rightarrow> None
              | Some q \<Rightarrow> Some (Math_round (fmul q 100))),
           matchedTopics = matched,
           unmatchedTopics = unmatched\<rparr>)"

text \<open>\<open>getPlaylistVideos\<close> catches every failure of its call and returns no videos.\<close>

definition getPlaylistVideos :: "world \<Rightarrow> jsstring \<Rightarrow> call list \<Rightarrow> PlaylistVideoItem list \<times> call list" where
  "getPlaylistVideos w playlistId tr =
     (case ytSearchList w (length tr) playlistId of
        Threw \<Rightarrow> ([], tr @ [ListFetch playlistId])
      | Resolved None \<Rightarrow> ([], tr @ [ListFetch playlistId])
      | Resolved (Some None) \<Rightarrow> ([], tr @ [ListFetch playlistId])
      | Resolved (Some (Some videos)) \<Rightarrow>
          (map (\<lambda>v. \<lparr>pv_videoId = vr_videoId v, pv_title = vr_title v, pv_duration = vr_duration v\<rparr>) videos,
           tr @ [ListFetch playlistId]))"

text \<open>A \<open>Set<string>\<close> keeps the order of first insertion.\<close>

fun setAdd :: "jsstring list \<Rightarrow> jsstring \<Rightarrow> jsstring list" where
  "setAdd channels x = (if x \<in> set channels then channels else channels @ [x])"

definition authorName :: "Author option \<Rightarrow> jsstring option" where
  "authorName a = (case a of None \<Rightarrow> None | Some au \<Rightarrow> a_name au)"

definition truthy :: "jsstring option \<Rightarrow> bool" where
  "truthy s = (case s of None \<Rightarrow> False | Some n \<Rightarrow> n \<noteq> [])"

definition findPromisingChannels :: "world \<Rightarrow> jsstring \<Rightarrow> jsstring \<Rightarrow> call list \<Rightarrow> jsstring list \<times> call list" where
  "findPromisingChannels w subject suffix tr =
     (let query = trim (subject @ ascii '' tutorial '' @ suffix)
      in case ytSearch w (length tr) query of
           Threw \<Rightarrow> ([], tr @ [Search query])
         | Resolved None \<Rightarrow> ([], tr @ [Search query])
         | Resolved (Some result) \<Rightarrow>
             (let videos = (case sr_videos result of None \<Rightarrow> [] | Some vs \<Rightarrow> vs);
                  names = filter truthy (map (\<lambda>v. authorName (vr_author v)) (take 10 videos));
                  channels = foldl setAdd [] (map the names)
              in (take 5 channels, tr @ [Search query])))"

definition toAnchorVideo :: "nat \<times> PlaylistVideoItem \<Rightarrow> AnchorVideo" where
  "toAnchorVideo iv =
     \<lparr>av_videoId = pv_videoId (snd iv),
      av_title = pv_title (snd iv),
      av_durationSeconds = (case pv_duration (snd iv) of None \<Rightarrow> 0 | Some d \<Rightarrow> d_seconds d),
      av_durationDisplay =
        (case pv_duration (snd iv) of
           None \<Rightarrow> ascii ''0:00''
         | Some d \<Rightarrow> if d_timestamp d = [] then ascii ''0:00'' else d_timestamp d),
      av_position = fst iv\<rparr>"

definition mkAnchor :: "PlaylistResult \<Rightarrow> PlaylistVideoItem list \<Rightarrow> CoverageScore \<Rightarrow> int \<Rightarrow> AnchorPlaylist" where
  "mkAnchor playlist playlistVideos scored c =
     \<lparr>ap_playlistId = pr_listId playlist,
      ap_playlistTitle = pr_title playlist,
      ap_channelName =
        (if truthy (authorName (pr_author playlist)) then the (authorName (pr_author playlist))
         else ascii ''Unknown''),
      ap_videoCount = length playlistVideos,
      ap_videos = map toAnchorVideo (enumerate 0 playlistVideos),
      ap_coverageScore = c,
      ap_matchedTopics = matchedTopics scored,
      ap_unmatchedTopics = unmatchedTopics scored\<rparr>"

text \<open>
  One record per playlist that the loop scores, written where the source logs
  \<open>"<title>" - <coverage>% coverage\<close>: the playlist, its videos and its score.
\<close>

record Scored =
  sc_playlist :: PlaylistResult
  sc_videos :: "PlaylistVideoItem list"
  sc_score :: CoverageScore

record huntState =
  bestAnchor :: "AnchorPlaylist option"
  bestScore :: int
  performed :: nat
  scoredLog :: "Scored list"

text \<open>
  The loop \<open>for (const playlist of playlists.slice(0, 5))\<close>. A \<open>NaN\<close> score is not greater
  than \<open>bestScore\<close>.
\<close>

fun huntLoop :: "world \<Rightarrow> jsstring list \<Rightarrow> PlaylistResult list \<Rightarrow> huntState \<Rightarrow> call list \<Rightarrow> huntState \<times> call list" where
  "huntLoop w tableOfContents [] st tr = (st, tr)"
| "huntLoop w tableOfContents (playlist # rest) st tr =
     (let (playlistVideos, tr') = getPlaylistVideos w (pr_listId playlist) tr;
          st1 = st\<lparr>performed := performed st + 1\<rparr>
      in if length playlistVideos < 3 then huntLoop w tableOfContents rest st1 tr'
         else
           (let scored = scorePlaylistCoverage w playlistVideos tableOfContents;
                st2 = st1\<lparr>scoredLog := scoredLog st1 @
                        [\<lparr>sc_playlist = playlist, sc_videos = playlistVideos, sc_score = scored\<rparr>]\<rparr>;
                st3 = (case coverageScore scored of
                         None \<Rightarrow> st2
                       | Some c \<Rightarrow>
                           if c > bestScore st2
                           then st2\<lparr>bestScore := c,
                                    bestAnchor := Some (mkAnchor playlist playlistVideos scored c)\<rparr>
                           else st2)
            in if bestScore st3 \<ge> 80 then (st3, tr') else huntLoop w tableOfContents rest st3 tr'))"

text \<open>
  \<open>huntForAnchor\<close>, with the log of scored playlists. The whole body is inside one \<open>try\<close>;
  the \<open>catch\<close> returns \<open>found: false\<close> without fallback channels.
\<close>

definition huntForAnchor ::
  "world \<Rightarrow> jsstring \<Rightarrow> jsstring list \<Rightarrow> jsstring \<Rightarrow> call list
     \<Rightarrow> (AnchorHuntResult \<times> Scored list) \<times> call list" where
  "huntForAnchor w subject tableOfContents suffix tr =
     (let playlistQuery = trim (subject @ ascii '' full course playlist '' @ suffix);
          tr1 = tr @ [Search playlistQuery]
      in case ytSearch w (length tr) playlistQuery of
           Threw \<Rightarrow>
             ((\<lparr>found = False, anchor = None, fallbackChannels = None, searchesPerformed = 0\<rparr>, []), tr1)
         | Resolved None \<Rightarrow>
             ((\<lparr>found = False, anchor = None, fallbackChannels = None, searchesPerformed = 1\<rparr>, []), tr1)
         | Resolved (Some searchResult) \<Rightarrow>
             (let playlists = (case sr_playlists searchResult of None \<Rightarrow> [] | Some ps \<Rightarrow> ps)
              in if length playlists = 0
                 then
                   (let (channels, tr2) = findPromisingChannels w subject suffix tr1
                    in ((\<lparr>found = False, anchor = None, fallbackChannels = Some channels,
                          searchesPerformed = 2\<rparr>, []), tr2))
                 else
                   (let (st, tr2) =
                          huntLoop w tableOfContents (take 5 playlists)
                            \<lparr>bestAnchor = None, bestScore = 0, performed = 1, scoredLog = []\<rparr> tr1
                    in if bestAnchor st \<noteq> None \<and> of_int (bestScore st) \<ge> MIN_COVERAGE_THRESHOLD * 100
                       then
                         ((\<lparr>found = True, anchor = bestAnchor st, fallbackChannels = None,
                            searchesPerformed = performed st\<rparr>, scoredLog st), tr2)
                       else
                         (let channelNames =
                                map the (filter truthy
                                  (map (\<lambda>p. authorName (pr_author p)) (take 3 playlists)))
                          in ((\<lparr>found = False, anchor = None, fallbackChannels = Some channelNames,
                                searchesPerformed = performed st\<rparr>, scoredLog st), tr2)))))"

section \<open>Predicates and concrete inputs used in the statements\<close>

text \<open>The clickbait loop of \<open>calculateDensityScore\<close> finds a signal.\<close>

definition clickbaitDetected :: "(jsstring \<Rightarrow> jsstring) \<Rightarrow> VideoCandidate \<Rightarrow> bool" where
  "clickbaitDetected lower video =
     list_ex (\<lambda>signal. js_includes (lower (vc_description video)) signal
                      \<or> js_includes (lower (vc_title video)) signal) CLICKBAIT_SIGNALS"

text \<open>The catalog queries among the external calls of a trace.\<close>

definition catalogQueries :: "call list \<Rightarrow> jsstring list" where
  "catalogQueries tr = concat (map (\<lambda>c. case c of Search q \<Rightarrow> [q] | _ \<Rightarrow> []) tr)"

text \<open>A catalog answer with zero results: \<open>videos\<close> is missing or empty.\<close>

definition zeroResults :: "SearchResult option awaited \<Rightarrow> bool" where
  "zeroResults r =
     (case r of
        Resolved (Some result) \<Rightarrow> (case sr_videos result of None \<Rightarrow> True | Some vs \<Rightarrow> vs = [])
      | _ \<Rightarrow> False)"

definition denseClickbait :: VideoCandidate where
  "denseClickbait =
     \<lparr>vc_videoId = ascii ''aaaaaaaaaa1'',
      vc_title = ascii ''You Won'' @ [0x27] @ ascii ''t Believe this Algorithm'',
      vc_description = ascii ''Code at GitHub.com/x and a Jupyter notebook; docs, source code'',
      vc_seconds = 1000, vc_timestamp = ascii ''16:40'', vc_views = 10,
      vc_authorName = ascii ''X'', vc_authorUrl = None,
      vc_densityScore = None, vc_densityFlags = None\<rparr>"

definition plainClickbait :: VideoCandidate where
  "plainClickbait =
     \<lparr>vc_videoId = ascii ''aaaaaaaaaa2'',
      vc_title = ascii ''INSANE trick'',
      vc_description = [],
      vc_seconds = 100, vc_timestamp = ascii ''1:40'', vc_views = 10,
      vc_authorName = ascii ''X'', vc_authorUrl = None,
      vc_densityScore = None, vc_densityFlags = None\<rparr>"

text \<open>The modifiers of the mode \<open>from_scratch\<close> in English for an undergraduate.\<close>

definition fromScratchWindow :: SearchModifiers where
  "fromScratchWindow =
     \<lparr>languageSuffix = [], experienceLevel = ascii ''intermediate'',
      duration = \<lparr>minSeconds = 600, maxSeconds = 2700, targetPerTopic = ascii ''15-45 min''\<rparr>,
      modeLabel = [], modeKeywords = ascii ''explained fundamentals concepts from basics''\<rparr>"

definition rawVideo :: "jsstring \<Rightarrow> int \<Rightarrow> VideoResult" where
  "rawVideo vid secs =
     \<lparr>vr_videoId = vid, vr_title = ascii ''Lecture'', vr_description = None,
      vr_duration = Some \<lparr>d_seconds = secs, d_timestamp = ascii ''1:00''\<rparr>,
      vr_views = None, vr_author = None\<rparr>"

definition catalogAnswer :: "VideoResult list \<Rightarrow> SearchResult option awaited" where
  "catalogAnswer vs = Resolved (Some \<lparr>sr_videos = Some vs, sr_playlists = Some []\<rparr>)"

text \<open>A world in which the catalog finds nothing and there is no reranker.\<close>

definition quietWorld :: world where
  "quietWorld =
     \<lparr>toLowerCase = lowerASCII,
      analyzeQuery = (\<lambda>q. q),
      fuseSearch = (\<lambda>titles query. []),
      ytSearch = (\<lambda>n q. catalogAnswer []),
      ytSearchList = (\<lambda>n q. Resolved (Some (Some []))),
      GEMINI_API_KEY = False,
      generateContentWithFailover = (\<lambda>n input. Threw),
      safeParseJsonObject = (\<lambda>txt. None)\<rparr>"

text \<open>Worlds in which the first catalog call throws, and in which the reranker answers.\<close>

definition throwingWorld :: world where
  "throwingWorld = quietWorld\<lparr>ytSearch := (\<lambda>n q. Threw)\<rparr>"

definition rerankWorld :: world where
  "rerankWorld = quietWorld
     \<lparr>GEMINI_API_KEY := True,
      generateContentWithFailover := (\<lambda>n input. Resolved (ascii ''winnerId aaaaaaaaaa6'')),
      safeParseJsonObject :=
        (\<lambda>txt. Some \<lparr>wj_winnerId = Some (ascii ''aaaaaaaaaa6''), wj_reasoning = None\<rparr>)\<rparr>"

definition strayWorld :: world where
  "strayWorld = quietWorld
     \<lparr>GEMINI_API_KEY := True,
      generateContentWithFailover := (\<lambda>n input. Resolved (ascii ''winnerId zzzzzzzzzzz'')),
      safeParseJsonObject :=
        (\<lambda>txt. Some \<lparr>wj_winnerId = Some (ascii ''zzzzzzzzzzz''), wj_reasoning = None\<rparr>)\<rparr>"

text \<open>Six search results of 700 seconds each, and their ranking.\<close>

definition sixVideos :: "VideoResult list" where
  "sixVideos = map (\<lambda>vid. rawVideo (ascii vid) 700)
     [''aaaaaaaaaa1'', ''aaaaaaaaaa2'', ''aaaaaaaaaa3'', ''aaaaaaaaaa4'', ''aaaaaaaaaa5'',
      ''aaaaaaaaaa6'']"

definition sixRanked :: "VideoCandidate list" where
  "sixRanked = rankByDensity (toLowerCase rerankWorld)
     (durationPool (map toCandidate (take 15 sixVideos)) fromScratchWindow)"

text \<open>The candidate made from \<open>rawVideo vid secs\<close>, with its score and flags.\<close>

definition scoredVideo :: "jsstring \<Rightarrow> int \<Rightarrow> VideoCandidate" where
  "scoredVideo vid secs =
     (toCandidate (rawVideo vid secs))
       \<lparr>vc_densityScore :=
          Some (fst (calculateDensityScore lowerASCII (toCandidate (rawVideo vid secs)))),
        vc_densityFlags :=
          Some (snd (calculateDensityScore lowerASCII (toCandidate (rawVideo vid secs))))\<rparr>"

text \<open>A world in which the catalog finds nothing on its first two calls and one video later.\<close>

definition lateWorld :: world where
  "lateWorld = quietWorld
     \<lparr>ytSearch := (\<lambda>n q. if n < 2 then catalogAnswer []
                          else catalogAnswer [rawVideo (ascii ''aaaaaaaaaa1'') 700])\<rparr>"

definition twoTopics :: "jsstring list" where
  "twoTopics = [ascii ''Arrays'', ascii ''Linked Lists'']"

definition cookingAnchor :: AnchorPlaylist where
  "cookingAnchor =
     \<lparr>ap_playlistId = ascii ''PL1'', ap_playlistTitle = ascii ''Cooking basics'',
      ap_channelName = ascii ''Chef'', ap_videoCount = 3,
      ap_videos =
        [\<lparr>av_videoId = ascii ''cccccccccc1'', av_title = ascii ''Pasta'', av_durationSeconds = 700,
          av_durationDisplay = ascii ''11:40'', av_position = 0\<rparr>,
         \<lparr>av_videoId = ascii ''cccccccccc2'', av_title = ascii ''Rice'', av_durationSeconds = 700,
          av_durationDisplay = ascii ''11:40'', av_position = 1\<rparr>,
         \<lparr>av_videoId = ascii ''cccccccccc3'', av_title = ascii ''Soup'', av_durationSeconds = 700,
          av_durationDisplay = ascii ''11:40'', av_position = 2\<rparr>],
      ap_coverageScore = 0, ap_matchedTopics = [], ap_unmatchedTopics = twoTopics\<rparr>"

text \<open>
  The Matcher scores a topic below the threshold against the titles: the test of
  \<open>scorePlaylistCoverage\<close> and \<open>mapTopicsToAnchor\<close> succeeds.
\<close>

definition isMatched :: "world \<Rightarrow> jsstring list \<Rightarrow> jsstring \<Rightarrow> bool" where
  "isMatched w titles topic \<longleftrightarrow> bestMatch (fuse_search w titles topic) \<noteq> None"

definition matchedCount :: "world \<Rightarrow> PlaylistVideoItem list \<Rightarrow> jsstring list \<Rightarrow> nat" where
  "matchedCount w playlistVideos toc =
     length (filter (isMatched w (map pv_title playlistVideos)) toc)"

text \<open>\<open>Math.round((m / n) * 100)\<close> for array lengths \<open>m\<close> and \<open>n > 0\<close>.\<close>

definition jsPercent :: "nat \<Rightarrow> nat \<Rightarrow> int" where
  "jsPercent m n = Math_round (fmul (double_round (of_nat m / of_nat n)) 100)"

text \<open>The score of a scored playlist, and the anchor that the loop builds from it.\<close>

definition scoreOf :: "Scored \<Rightarrow> int option" where
  "scoreOf s = coverageScore (sc_score s)"

definition anchorOf :: "Scored \<Rightarrow> int \<Rightarrow> AnchorPlaylist" where
  "anchorOf s c = mkAnchor (sc_playlist s) (sc_videos s) (sc_score s) c"

text \<open>
  The invariant of the scoring loop: \<open>bestScore\<close> bounds every score logged so far, and
  \<open>bestAnchor\<close> is built from the first logged playlist that has this score.
\<close>

definition huntInv :: "huntState \<Rightarrow> bool" where
  "huntInv st \<longleftrightarrow>
     0 \<le> bestScore st
     \<and> (\<forall>t \<in> set (scoredLog st). \<forall>d. scoreOf t = Some d \<longrightarrow> d \<le> bestScore st)
     \<and> (case bestAnchor st of
          None \<Rightarrow> bestScore st = 0
        | Some a \<Rightarrow>
            0 < bestScore st
            \<and> (\<exists>i < length (scoredLog st).
                  a = anchorOf (scoredLog st ! i) (bestScore st)
                \<and> scoreOf (scoredLog st ! i) = Some (bestScore st)
                \<and> (\<forall>j < i. \<forall>d. scoreOf (scoredLog st ! j) = Some d \<longrightarrow> d < bestScore st)))"

text \<open>A world with one playlist of three videos, in which only the topic Arrays matches.\<close>

definition dsaPlaylist :: PlaylistResult where
  "dsaPlaylist = \<lparr>pr_listId = ascii ''PLdsa'', pr_title = ascii ''DSA full course'',
                   pr_author = Some \<lparr>a_name = Some (ascii ''Prof''), a_url = None\<rparr>\<rparr>"

definition dsaVideos :: "VideoResult list" where
  "dsaVideos = [rawVideo (ascii ''ddddddddddd1'') 700, rawVideo (ascii ''ddddddddddd2'') 700,
                rawVideo (ascii ''ddddddddddd3'') 700]"

definition dsaItems :: "PlaylistVideoItem list" where
  "dsaItems =
     map (\<lambda>v. \<lparr>pv_videoId = vr_videoId v, pv_title = vr_title v, pv_duration = vr_duration v\<rparr>)
       dsaVideos"

definition anchorWorld :: world where
  "anchorWorld = quietWorld
     \<lparr>fuseSearch := (\<lambda>titles query.
         if query = ascii ''Arrays'' \<and> titles \<noteq> [] then [(0, Some (1 / 10))] else []),
      ytSearch := (\<lambda>n q. Resolved (Some \<lparr>sr_videos = Some [], sr_playlists = Some [dsaPlaylist]\<rparr>)),
      ytSearchList := (\<lambda>n q. Resolved (Some (Some dsaVideos)))\<rparr>"

text \<open>Forty topics, and a world in which the titles match the first 23 of them.\<close>

definition fortyTopics :: "jsstring list" where
  "fortyTopics = map (\<lambda>k. ascii (''Unit '' @ replicate k CHR ''I'')) [1..<41]"

definition partialWorld :: world where
  "partialWorld = quietWorld
     \<lparr>fuseSearch := (\<lambda>titles query.
         if query \<in> set (take 23 fortyTopics) \<and> titles \<noteq> [] then [(0, Some (1 / 10))] else [])\<rparr>"

section \<open>Properties of the scorer\<close>

lemma calculateDensityScore_density_fields:
  "calculateDensityScore lower (v\<lparr>vc_densityScore := a, vc_densityFlags := b\<rparr>)
     = calculateDensityScore lower v"
proof -
  have p: "positiveSignals lower (v\<lparr>vc_densityScore := a, vc_densityFlags := b\<rparr>)
             = positiveSignals lower v"
    by (simp add: positiveSignals_def Let_def cong: if_cong)
  have n: "negativeSignals lower (v\<lparr>vc_densityScore := a, vc_densityFlags := b\<rparr>) st
             = negativeSignals lower v st" for st
    by (simp add: negativeSignals_def Let_def cong: if_cong)
  show ?thesis by (simp add: calculateDensityScore_def p n)
qed

lemma withDensity_idem: "withDensity lower (withDensity lower v) = withDensity lower v"
  by (simp add: withDensity_def Let_def calculateDensityScore_density_fields)

lemma map_withDensity_ranked:
  "map (withDensity lower) (rankByDensity lower videos) = rankByDensity lower videos"
proof -
  have "\<forall>x \<in> set (rankByDensity lower videos). withDensity lower x = x"
    by (auto simp: rankByDensity_def withDensity_idem)
  then show ?thesis by (simp add: map_idI)
qed

lemma length_rankByDensity: "length (rankByDensity lower videos) = length videos"
  by (simp add: rankByDensity_def)

text \<open>
  C9. \<open>rankByDensity\<close> is idempotent: ranking its own output again gives the same list, in
  the same order. The score is a function of the title, description, duration and views only,
  so the second pass computes the same scores, and a stable sort leaves a sorted list alone.
\<close>

theorem rankByDensity_idempotent:
  "rankByDensity lower (rankByDensity lower videos) = rankByDensity lower videos"
proof -
  let ?key = "\<lambda>v. - scoreOrZero v"
  have "rankByDensity lower (rankByDensity lower videos)
          = sort_key ?key (rankByDensity lower videos)"
    by (simp add: rankByDensity_def[of lower "rankByDensity lower videos"] map_withDensity_ranked)
  also have "\<dots> = rankByDensity lower videos"
    by (simp add: rankByDensity_def sort_key_id_if_sorted)
  finally show ?thesis .
qed

lemma firstHit_hit:
  "list_ex hit xs \<Longrightarrow> firstHit hit w f xs st = (fst st + w, snd st @ [f])"
  by (induction xs) auto

lemma firstHit_miss: "\<not> list_ex hit xs \<Longrightarrow> firstHit hit w f xs st = st"
  by (induction xs) auto

lemma firstHit_mono: "0 \<le> w \<Longrightarrow> fst st \<le> fst (firstHit hit w f xs st)"
  by (induction xs) auto

lemma positiveSignals_nonneg: "0 \<le> fst (positiveSignals lower video)"
proof -
  let ?d = "lower (vc_description video)" and ?t = "lower (vc_title video)"
  define s1 where "s1 = firstHit (\<lambda>signal. js_includes ?d signal) GITHUB_BOOST FLAG_github QUALITY_github (0, [])"
  define s2 where "s2 = firstHit (\<lambda>signal. js_includes ?d signal) GITHUB_BOOST FLAG_notebook QUALITY_colab s1"
  define s3 where "s3 = firstHit (\<lambda>keyword. js_includes ?d keyword \<or> js_includes ?t keyword)
                 DOCUMENTATION_BOOST FLAG_documentation QUALITY_documentation s2"
  define s4 where "s4 = firstHit (\<lambda>keyword. js_includes ?d keyword \<or> js_includes ?t keyword)
                 ACADEMIC_BOOST FLAG_academic QUALITY_academic s3"
  define s5 where "s5 = firstHit (\<lambda>keyword. js_includes ?d keyword) 15 FLAG_technical QUALITY_technical s4"
  have "0 \<le> fst s1" unfolding s1_def
    using firstHit_mono[of GITHUB_BOOST "(0, [])"] by (simp add: GITHUB_BOOST_def)
  then have "0 \<le> fst s2" unfolding s2_def
    using firstHit_mono[of GITHUB_BOOST s1] by (simp add: GITHUB_BOOST_def order_trans)
  then have "0 \<le> fst s3" unfolding s3_def
    using firstHit_mono[of DOCUMENTATION_BOOST s2] by (simp add: DOCUMENTATION_BOOST_def order_trans)
  then have "0 \<le> fst s4" unfolding s4_def
    using firstHit_mono[of ACADEMIC_BOOST s3] by (simp add: ACADEMIC_BOOST_def order_trans)
  then have 5: "0 \<le> fst s5" unfolding s5_def
    using firstHit_mono[of 15 s4] by (simp add: order_trans)
  have "positiveSignals lower video =
          (if vc_seconds video > 900 then (fst s5 + LONG_VIDEO_BOOST, snd s5 @ [FLAG_deepDive])
           else if vc_seconds video > 600 then (fst s5 + MEDIUM_VIDEO_BOOST, snd s5 @ [FLAG_detailed])
           else s5)"
    by (simp add: positiveSignals_def Let_def s1_def s2_def s3_def s4_def s5_def)
  with 5 show ?thesis by (simp add: LONG_VIDEO_BOOST_def MEDIUM_VIDEO_BOOST_def)
qed

lemma denseClickbait_score:
  "clickbaitDetected lowerASCII denseClickbait \<and> fst (calculateDensityScore lowerASCII denseClickbait) = 90"
  by code_simp

lemma plainClickbait_score:
  "clickbaitDetected lowerASCII plainClickbait \<and> fst (calculateDensityScore lowerASCII plainClickbait) = - 100"
  by code_simp

text \<open>
  C8. When the title or the description (in lower case) contains a clickbait signal, the score
  is the sum of the positive signals found before, the clickbait penalty of -100 applied
  once, and the two later penalties where they apply. Nothing after the clickbait check adds
  to the score, and the score is not reset: the positive signals stay in the sum, so the
  result is positive for some items and negative for others.
\<close>

theorem clickbait_penalty:
  assumes "clickbaitDetected lower video"
  shows "fst (calculateDensityScore lower video)
           = fst (positiveSignals lower video) + CLICKBAIT_PENALTY
             + (if vc_views video > HIGH_VIEW_PENALTY_THRESHOLD \<and> length (vc_description video) < 100
                then EMPTY_DESC_PENALTY else 0)
             + (if capsRatioAboveHalf (vc_title video) \<and> length (vc_title video) > 10 then - 20 else 0)
         \<and> CLICKBAIT_PENALTY = - 100
         \<and> 0 \<le> fst (positiveSignals lower video)
         \<and> fst (calculateDensityScore lower video) \<le> fst (positiveSignals lower video) - 100
         \<and> FLAG_clickbait \<in> set (snd (calculateDensityScore lower video))
         \<and> (\<exists>v. clickbaitDetected lowerASCII v \<and> 0 < fst (calculateDensityScore lowerASCII v))
         \<and> (\<exists>v. clickbaitDetected lowerASCII v \<and> fst (calculateDensityScore lowerASCII v) < 0)"
proof -
  let ?p = "positiveSignals lower video"
  have hit: "firstHit (\<lambda>signal. js_includes (lower (vc_description video)) signal
                              \<or> js_includes (lower (vc_title video)) signal)
               CLICKBAIT_PENALTY FLAG_clickbait CLICKBAIT_SIGNALS ?p
             = (fst ?p + CLICKBAIT_PENALTY, snd ?p @ [FLAG_clickbait])"
    using assms unfolding clickbaitDetected_def by (rule firstHit_hit)
  have eq: "fst (calculateDensityScore lower video)
           = fst ?p + CLICKBAIT_PENALTY
             + (if vc_views video > HIGH_VIEW_PENALTY_THRESHOLD \<and> length (vc_description video) < 100
                then EMPTY_DESC_PENALTY else 0)
             + (if capsRatioAboveHalf (vc_title video) \<and> length (vc_title video) > 10 then - 20 else 0)"
    by (simp add: calculateDensityScore_def negativeSignals_def Let_def hit)
  have fl: "FLAG_clickbait \<in> set (snd (calculateDensityScore lower video))"
    by (simp add: calculateDensityScore_def negativeSignals_def Let_def hit)
  have le: "fst (calculateDensityScore lower video) \<le> fst ?p - 100"
    unfolding eq by (simp add: CLICKBAIT_PENALTY_def EMPTY_DESC_PENALTY_def)
  have ex1: "\<exists>v. clickbaitDetected lowerASCII v \<and> 0 < fst (calculateDensityScore lowerASCII v)"
    using denseClickbait_score by (intro exI[of _ denseClickbait]) simp
  have ex2: "\<exists>v. clickbaitDetected lowerASCII v \<and> fst (calculateDensityScore lowerASCII v) < 0"
    using plainClickbait_score by (intro exI[of _ plainClickbait]) simp
  show ?thesis
    using eq fl le ex1 ex2 positiveSignals_nonneg[of lower video]
    by (simp add: CLICKBAIT_PENALTY_def)
qed

theorem clickbait_penalty_witness:
  "clickbaitDetected lowerASCII denseClickbait
   \<and> fst (calculateDensityScore lowerASCII denseClickbait) = 90
   \<and> fst (positiveSignals lowerASCII denseClickbait) = 190"
proof -
  have h: "clickbaitDetected lowerASCII denseClickbait" using denseClickbait_score by simp
  have s: "fst (calculateDensityScore lowerASCII denseClickbait) = 90" using denseClickbait_score by simp
  have c: "\<not> (capsRatioAboveHalf (vc_title denseClickbait) \<and> length (vc_title denseClickbait) > 10)"
    by code_simp
  have v: "\<not> (vc_views denseClickbait > HIGH_VIEW_PENALTY_THRESHOLD \<and> length (vc_description denseClickbait) < 100)"
    by code_simp
  have e: "fst (calculateDensityScore lowerASCII denseClickbait)
           = fst (positiveSignals lowerASCII denseClickbait) + CLICKBAIT_PENALTY
             + (if vc_views denseClickbait > HIGH_VIEW_PENALTY_THRESHOLD
                   \<and> length (vc_description denseClickbait) < 100
                then EMPTY_DESC_PENALTY else 0)
             + (if capsRatioAboveHalf (vc_title denseClickbait) \<and> length (vc_title denseClickbait) > 10
                then - 20 else 0)"
    using clickbait_penalty[OF h] by (rule conjunct1)
  have "fst (positiveSignals lowerASCII denseClickbait) = 190"
    using e s c v by (simp add: CLICKBAIT_PENALTY_def)
  with h s show ?thesis by simp
qed

section \<open>The example inputs\<close>

lemma lecture_no_keyword:
  "\<not> list_ex (\<lambda>signal. js_includes (lowerASCII []) signal) QUALITY_github
   \<and> \<not> list_ex (\<lambda>signal. js_includes (lowerASCII []) signal) QUALITY_colab
   \<and> \<not> list_ex (\<lambda>keyword. js_includes (lowerASCII []) keyword
                          \<or> js_includes (lowerASCII (ascii ''Lecture'')) keyword) QUALITY_documentation
   \<and> \<not> list_ex (\<lambda>keyword. js_includes (lowerASCII []) keyword
                          \<or> js_includes (lowerASCII (ascii ''Lecture'')) keyword) QUALITY_academic
   \<and> \<not> list_ex (\<lambda>keyword. js_includes (lowerASCII []) keyword) QUALITY_technical
   \<and> \<not> list_ex (\<lambda>signal. js_includes (lowerASCII []) signal
                          \<or> js_includes (lowerASCII (ascii ''Lecture'')) signal) CLICKBAIT_SIGNALS"
  by code_simp

lemma lecture_caps: "\<not> (capsRatioAboveHalf (ascii ''Lecture'') \<and> length (ascii ''Lecture'') > 10)"
  by (simp add: ascii_def)

lemma rawVideo_score:
  "calculateDensityScore lowerASCII (toCandidate (rawVideo vid secs))
     = (if secs > 900 then (LONG_VIDEO_BOOST, [FLAG_deepDive])
        else if secs > 600 then (MEDIUM_VIDEO_BOOST, [FLAG_detailed]) else (0, []))"
proof -
  note n = lecture_no_keyword
  note g = n[THEN conjunct1]
  note c = n[THEN conjunct2, THEN conjunct1]
  note d = n[THEN conjunct2, THEN conjunct2, THEN conjunct1]
  note a = n[THEN conjunct2, THEN conjunct2, THEN conjunct2, THEN conjunct1]
  note t = n[THEN conjunct2, THEN conjunct2, THEN conjunct2, THEN conjunct2, THEN conjunct1]
  note b = n[THEN conjunct2, THEN conjunct2, THEN conjunct2, THEN conjunct2, THEN conjunct2]
  have v: "vc_description (toCandidate (rawVideo vid secs)) = []"
    "vc_title (toCandidate (rawVideo vid secs)) = ascii ''Lecture''"
    "vc_seconds (toCandidate (rawVideo vid secs)) = secs"
    "vc_views (toCandidate (rawVideo vid secs)) = 0"
    by (simp_all add: toCandidate_def rawVideo_def)
  have p: "positiveSignals lowerASCII (toCandidate (rawVideo vid secs))
     = (if secs > 900 then (LONG_VIDEO_BOOST, [FLAG_deepDive])
        else if secs > 600 then (MEDIUM_VIDEO_BOOST, [FLAG_detailed]) else (0, []))"
    unfolding positiveSignals_def v Let_def
    by (simp only: firstHit_miss[OF g] firstHit_miss[OF c] firstHit_miss[OF d] firstHit_miss[OF a]
          firstHit_miss[OF t]) simp
  have n: "negativeSignals lowerASCII (toCandidate (rawVideo vid secs)) st = st" for st
    unfolding negativeSignals_def v Let_def
    using lecture_caps
    by (simp only: firstHit_miss[OF b]) (simp add: HIGH_VIEW_PENALTY_THRESHOLD_def)
  show ?thesis by (simp add: calculateDensityScore_def p n)
qed


lemma withDensity_rawVideo: "withDensity lowerASCII (toCandidate (rawVideo vid secs)) = scoredVideo vid secs"
  by (simp add: withDensity_def scoredVideo_def Let_def)

lemma scoredVideo_fields [simp]:
  "vc_videoId (scoredVideo vid secs) = vid"
  "vc_seconds (scoredVideo vid secs) = secs"
  "vc_title (scoredVideo vid secs) = ascii ''Lecture''"
  "vc_authorName (scoredVideo vid secs) = ascii ''Unknown''"
  "vc_timestamp (scoredVideo vid secs) = ascii ''1:00''"
  by (simp_all add: scoredVideo_def toCandidate_def rawVideo_def ascii_def)

lemma scoredVideo_score [simp]:
  "scoreOrZero (scoredVideo vid secs) = (if secs > 900 then 30 else if secs > 600 then 15 else 0)"
  by (simp add: scoredVideo_def scoreOrZero_def rawVideo_score LONG_VIDEO_BOOST_def MEDIUM_VIDEO_BOOST_def)

lemma toCandidate_rawVideo_seconds [simp]: "vc_seconds (toCandidate (rawVideo vid secs)) = secs"
  by (simp add: toCandidate_def rawVideo_def)

lemma rerankWorld_fields [simp]:
  "toLowerCase rerankWorld = lowerASCII"
  "GEMINI_API_KEY rerankWorld"
  "generateContentWithFailover rerankWorld n input = Resolved (ascii ''winnerId aaaaaaaaaa6'')"
  "safeParseJsonObject rerankWorld txt = Some \<lparr>wj_winnerId = Some (ascii ''aaaaaaaaaa6''), wj_reasoning = None\<rparr>"
  by (simp_all add: rerankWorld_def quietWorld_def)

lemma fromScratchWindow_fields [simp]:
  "minSeconds (duration fromScratchWindow) = 600"
  "maxSeconds (duration fromScratchWindow) = 2700"
  "languageSuffix fromScratchWindow = []"
  by (simp_all add: fromScratchWindow_def)

lemma sixPool:
  "durationPool (map toCandidate (take 15 sixVideos)) fromScratchWindow = map toCandidate sixVideos"
  by (simp add: sixVideos_def durationPool_def durationWindow_def filterByDuration_def Let_def)

lemma sixRanked_eq:
  "sixRanked = map (\<lambda>vid. scoredVideo (ascii vid) 700)
     [''aaaaaaaaaa1'', ''aaaaaaaaaa2'', ''aaaaaaaaaa3'', ''aaaaaaaaaa4'', ''aaaaaaaaaa5'', ''aaaaaaaaaa6'']"
  by (simp add: sixRanked_def sixPool rankByDensity_def) (simp add: sixVideos_def withDensity_rawVideo)

lemma six_winner:
  "fst (vibeCheckRerank rerankWorld input tr)
     = \<lparr>rr_winnerId = Some (ascii ''aaaaaaaaaa6''),
        rr_reasoning = Some (ascii ''Selected by Gemini Reranker''), rr_fallbackUsed = False\<rparr>"
  by (simp add: vibeCheckRerank_def) (simp add: ascii_def)

lemma id6_distinct:
  "ascii ''aaaaaaaaaa6'' \<notin> set (map ascii [''aaaaaaaaaa1'', ''aaaaaaaaaa2'', ''aaaaaaaaaa3'', ''aaaaaaaaaa4'', ''aaaaaaaaaa5''])"
  by (simp add: ascii_def)

lemma strayWorld_fields [simp]:
  "toLowerCase strayWorld = lowerASCII"
  "GEMINI_API_KEY strayWorld"
  "generateContentWithFailover strayWorld n input = Resolved (ascii ''winnerId zzzzzzzzzzz'')"
  "safeParseJsonObject strayWorld txt = Some \<lparr>wj_winnerId = Some (ascii ''zzzzzzzzzzz''), wj_reasoning = None\<rparr>"
  by (simp_all add: strayWorld_def quietWorld_def)

lemma quietWorld_fields [simp]:
  "toLowerCase quietWorld = lowerASCII"
  "\<not> GEMINI_API_KEY quietWorld"
  "ytSearch quietWorld n q = catalogAnswer []"
  "analyzeQuery quietWorld q = q"
  by (simp_all add: quietWorld_def)

lemma stray_winner:
  "rr_winnerId (fst (vibeCheckRerank strayWorld input tr)) = Some (ascii ''zzzzzzzzzzz'')"
  by (simp add: vibeCheckRerank_def) (simp add: ascii_def)

lemma stray_distinct:
  "ascii ''zzzzzzzzzzz'' \<notin> set (map ascii [''aaaaaaaaaa1'', ''aaaaaaaaaa2'', ''aaaaaaaaaa3'', ''aaaaaaaaaa4'', ''aaaaaaaaaa5'', ''aaaaaaaaaa6''])"
  by (simp add: ascii_def)

section \<open>Properties of the resolver\<close>

lemma map4: "map f xs = [a, b, c, d] \<Longrightarrow> \<exists>x0 x1 x2 x3. xs = [x0, x1, x2, x3] \<and> f x0 = a \<and> f x1 = b \<and> f x2 = c \<and> f x3 = d"
  by (auto simp: map_eq_Cons_conv)

lemma map2: "map f xs = [a, b] \<Longrightarrow> \<exists>x0 x1. xs = [x0, x1] \<and> f x0 = a \<and> f x1 = b"
  by (auto simp: map_eq_Cons_conv)

lemma window4:
  assumes "minSeconds (duration modifiers) = 600" "maxSeconds (duration modifiers) = 2700"
    and "map vc_seconds candidates = [30, 700, 1800, 5000]"
  shows "durationWindow candidates modifiers = [candidates ! 1, candidates ! 2]"
    and "durationPool candidates modifiers = [candidates ! 1, candidates ! 2]"
proof -
  from map4[OF assms(3)] obtain x0 x1 x2 x3 where
    c: "candidates = [x0, x1, x2, x3]" and s: "vc_seconds x0 = 30" "vc_seconds x1 = 700"
       "vc_seconds x2 = 1800" "vc_seconds x3 = 5000" by blast
  show w: "durationWindow candidates modifiers = [candidates ! 1, candidates ! 2]"
    by (simp add: durationWindow_def filterByDuration_def c s assms(1,2))
  show "durationPool candidates modifiers = [candidates ! 1, candidates ! 2]"
    by (simp add: durationPool_def w Let_def)
qed

lemma pool2:
  assumes "minSeconds (duration modifiers) = 600" "maxSeconds (duration modifiers) = 2700"
    and "map vc_seconds candidates = [30, 50]"
  shows "durationWindow candidates modifiers = []"
    and "filterByDuration candidates 60 = []"
    and "durationPool candidates modifiers = []"
proof -
  from map2[OF assms(3)] obtain x0 x1 where
    c: "candidates = [x0, x1]" and s: "vc_seconds x0 = 30" "vc_seconds x1 = 50" by blast
  show w: "durationWindow candidates modifiers = []"
    by (simp add: durationWindow_def filterByDuration_def c s assms(1,2))
  show f: "filterByDuration candidates 60 = []"
    by (simp add: filterByDuration_def c s)
  show "durationPool candidates modifiers = []"
    by (simp add: durationPool_def w f Let_def)
qed

text \<open>
  C6. With the window \<open>{minSeconds: 600, maxSeconds: 2700}\<close>: of candidates with durations
  30, 700, 1800 and 5000 seconds exactly the second and the third pass the filter, and they
  are the pool. When the search results have durations 30 and 50, the window keeps none, the
  relaxed floor of 60 seconds keeps none, \<open>pickBestVideo\<close> returns \<open>null\<close>, and so does
  \<open>searchForTopic\<close> when these are the results of its first query.
\<close>

theorem duration_window_scenario:
  assumes "minSeconds (duration modifiers) = 600" and "maxSeconds (duration modifiers) = 2700"
  shows "(map vc_seconds candidates = [30, 700, 1800, 5000] \<longrightarrow>
            durationWindow candidates modifiers = [candidates ! 1, candidates ! 2]
          \<and> durationPool candidates modifiers = [candidates ! 1, candidates ! 2])
       \<and> (map (\<lambda>v. vc_seconds (toCandidate v)) rawVideos = [30, 50] \<longrightarrow>
            durationWindow (map toCandidate rawVideos) modifiers = []
          \<and> filterByDuration (map toCandidate rawVideos) 60 = []
          \<and> pickBestVideo w rawVideos topic modifiers position tr = (Inr None, tr)
          \<and> (ytSearch w (length tr)
                (filterBooleanJoin [analyzeQuery w (subject @ ascii '' '' @ topic), languageSuffix modifiers])
                = Resolved (Some \<lparr>sr_videos = Some rawVideos, sr_playlists = pl\<rparr>) \<longrightarrow>
              fst (searchForTopic w topic subject modifiers position tr) = Inr None))"
proof (intro conjI impI)
  assume a: "map vc_seconds candidates = [30, 700, 1800, 5000]"
  show "durationWindow candidates modifiers = [candidates ! 1, candidates ! 2]"
    using window4(1)[OF assms a] .
  show "durationPool candidates modifiers = [candidates ! 1, candidates ! 2]"
    using window4(2)[OF assms a] .
next
  assume a: "map (\<lambda>v. vc_seconds (toCandidate v)) rawVideos = [30, 50]"
  then have len: "length rawVideos = 2" using map2 by fastforce
  have ne: "rawVideos \<noteq> []" using len by auto
  have a': "map vc_seconds (map toCandidate (take 15 rawVideos)) = [30, 50]"
    using a len by (simp add: comp_def)
  have a'': "map vc_seconds (map toCandidate rawVideos) = [30, 50]"
    using a by (simp add: comp_def)
  show "durationWindow (map toCandidate rawVideos) modifiers = []"
    using pool2(1)[OF assms a''] .
  show "filterByDuration (map toCandidate rawVideos) 60 = []"
    using pool2(2)[OF assms a''] .
  show p: "pickBestVideo w rawVideos topic modifiers position tr = (Inr None, tr)" for tr
    using pool2(3)[OF assms a'] by (simp add: pickBestVideo_def Let_def)
  assume "ytSearch w (length tr)
            (filterBooleanJoin [analyzeQuery w (subject @ ascii '' '' @ topic), languageSuffix modifiers])
          = Resolved (Some \<lparr>sr_videos = Some rawVideos, sr_playlists = pl\<rparr>)"
  then show "fst (searchForTopic w topic subject modifiers position tr) = Inr None"
    using ne by (simp add: searchForTopic_def Let_def p)
qed

theorem duration_window_scenario_witness:
  "durationWindow
     (map toCandidate
        [rawVideo (ascii ''aaaaaaaaaa1'') 30, rawVideo (ascii ''aaaaaaaaaa2'') 700,
         rawVideo (ascii ''aaaaaaaaaa3'') 1800, rawVideo (ascii ''aaaaaaaaaa4'') 5000])
     fromScratchWindow
     = [toCandidate (rawVideo (ascii ''aaaaaaaaaa2'') 700),
        toCandidate (rawVideo (ascii ''aaaaaaaaaa3'') 1800)]
   \<and> pickBestVideo quietWorld
        [rawVideo (ascii ''aaaaaaaaaa1'') 30, rawVideo (ascii ''aaaaaaaaaa2'') 50]
        (ascii ''Arrays'') fromScratchWindow 0 [] = (Inr None, [])"
proof -
  have m: "minSeconds (duration fromScratchWindow) = 600"
    "maxSeconds (duration fromScratchWindow) = 2700"
    by simp_all
  have s4: "map vc_seconds
              (map toCandidate
                 [rawVideo (ascii ''aaaaaaaaaa1'') 30, rawVideo (ascii ''aaaaaaaaaa2'') 700,
                  rawVideo (ascii ''aaaaaaaaaa3'') 1800, rawVideo (ascii ''aaaaaaaaaa4'') 5000])
              = [30, 700, 1800, 5000]"
    by simp
  have s2: "map (\<lambda>v. vc_seconds (toCandidate v))
              [rawVideo (ascii ''aaaaaaaaaa1'') 30, rawVideo (ascii ''aaaaaaaaaa2'') 50] = [30, 50]"
    by simp
  show ?thesis
    using duration_window_scenario[OF m,
        of "map toCandidate
              [rawVideo (ascii ''aaaaaaaaaa1'') 30, rawVideo (ascii ''aaaaaaaaaa2'') 700,
               rawVideo (ascii ''aaaaaaaaaa3'') 1800, rawVideo (ascii ''aaaaaaaaaa4'') 5000]"
           "[rawVideo (ascii ''aaaaaaaaaa1'') 30, rawVideo (ascii ''aaaaaaaaaa2'') 50]"
           quietWorld "ascii ''Arrays''" 0 "[]"] s4 s2
    by simp
qed

lemma catalogQueries_append [simp]: "catalogQueries (a @ b) = catalogQueries a @ catalogQueries b"
  by (simp add: catalogQueries_def)

lemma catalogQueries_simps [simp]:
  "catalogQueries [] = []"
  "catalogQueries (Search q # tr) = q # catalogQueries tr"
  "catalogQueries (Generate i # tr) = catalogQueries tr"
  "catalogQueries (ListFetch l # tr) = catalogQueries tr"
  by (simp_all add: catalogQueries_def)

lemma vibeCheckRerank_trace:
  "snd (vibeCheckRerank w input tr) = tr \<or> snd (vibeCheckRerank w input tr) = tr @ [Generate input]"
  by (simp add: vibeCheckRerank_def split: awaited.splits option.splits)

lemma rankByDensity_Nil_iff: "rankByDensity lower pool = [] \<longleftrightarrow> pool = []"
  using length_rankByDensity[of lower pool] by (metis length_0_conv)

lemma pickBestVideo_total_trace:
  "\<exists>r ext. pickBestVideo w rawVideos topic modifiers position tr = (Inr r, tr @ ext)
           \<and> catalogQueries ext = []"
proof -
  let ?pool = "durationPool (map toCandidate (take 15 rawVideos)) modifiers"
  show ?thesis
  proof (cases "?pool = []")
    case True
    then show ?thesis by (simp add: pickBestVideo_def Let_def)
  next
    case False
    then obtain best others where r: "rankByDensity (toLowerCase w) ?pool = best # others"
      using rankByDensity_Nil_iff[of "toLowerCase w" ?pool] by (cases "rankByDensity (toLowerCase w) ?pool") auto
    let ?input = "rerankerInput (take 5 (best # others)) topic modifiers"
    from vibeCheckRerank_trace[of w ?input tr]
    show ?thesis
      using False r
      by (auto simp: pickBestVideo_def Let_def split: prod.splits option.splits)
  qed
qed

text \<open>
  C7. Resolving one topic never throws: \<open>searchForTopic\<close> always returns an entry or
  \<open>null\<close>. It sends the contextual query to the catalog once; it sends the simpler query
  (the topic and the language suffix) exactly when the first answer has zero results, and no
  further catalog query. When both answers have zero results the result is \<open>null\<close>; when
  the first call throws (or gives no result object), or the first answer has zero results and
  the retry throws, the error is caught and the result is \<open>null\<close>.
\<close>

theorem searchForTopic_contained:
  "let q1 = filterBooleanJoin [analyzeQuery w (subject @ ascii '' '' @ topic), languageSuffix modifiers];
       q2 = trim (topic @ ascii '' '' @ languageSuffix modifiers);
       first = ytSearch w (length tr) q1;
       second = ytSearch w (length tr + 1) q2;
       res = searchForTopic w topic subject modifiers position tr
   in (\<exists>r. fst res = Inr r)
    \<and> (\<exists>ext. snd res = tr @ ext
            \<and> catalogQueries ext = (if zeroResults first then [q1, q2] else [q1]))
    \<and> (zeroResults first \<and> zeroResults second \<longrightarrow> fst res = Inr None)
    \<and> (first = Threw \<or> first = Resolved None \<longrightarrow> fst res = Inr None)
    \<and> (zeroResults first \<and> (second = Threw \<or> second = Resolved None) \<longrightarrow> fst res = Inr None)"
proof -
  define q1 where "q1 = filterBooleanJoin [analyzeQuery w (subject @ ascii '' '' @ topic), languageSuffix modifiers]"
  define q2 where "q2 = trim (topic @ ascii '' '' @ languageSuffix modifiers)"
  define first where "first = ytSearch w (length tr) q1"
  define second where "second = ytSearch w (length tr + 1) q2"
  define res where "res = searchForTopic w topic subject modifiers position tr"
  have pick: "\<exists>r ext. pickBestVideo w vs topic modifiers position tr' = (Inr r, tr' @ ext)
           \<and> catalogQueries ext = []" for vs tr'
    by (rule pickBestVideo_total_trace)
  have res_eq: "res =
     (case first of
           Threw \<Rightarrow> (Inr None, tr @ [Search q1])
         | Resolved None \<Rightarrow> (Inr None, tr @ [Search q1])
         | Resolved (Some result) \<Rightarrow>
             (let videos = (case sr_videos result of None \<Rightarrow> [] | Some vs \<Rightarrow> vs)
              in if length videos = 0
                 then
                   (case second of
                         Threw \<Rightarrow> (Inr None, tr @ [Search q1, Search q2])
                       | Resolved None \<Rightarrow> (Inr None, tr @ [Search q1, Search q2])
                       | Resolved (Some fallbackResult) \<Rightarrow>
                           (case sr_videos fallbackResult of
                              None \<Rightarrow> (Inr None, tr @ [Search q1, Search q2])
                            | Some vs \<Rightarrow>
                                if length vs = 0 then (Inr None, tr @ [Search q1, Search q2])
                                else pickBestVideo w vs topic modifiers position (tr @ [Search q1, Search q2])))
                 else pickBestVideo w videos topic modifiers position (tr @ [Search q1])))"
    by (simp add: res_def searchForTopic_def Let_def q1_def q2_def first_def second_def
          split: awaited.split option.split)
  have total: "\<exists>r. fst res = Inr r"
    unfolding res_eq using pick
    by (auto simp: Let_def split: awaited.splits option.splits) (metis fst_conv)+
  have trace: "\<exists>ext. snd res = tr @ ext
            \<and> catalogQueries ext = (if zeroResults first then [q1, q2] else [q1])"
  proof (cases "zeroResults first")
    case True
    then obtain result where f: "first = Resolved (Some result)"
      and z: "(case sr_videos result of None \<Rightarrow> [] | Some vs \<Rightarrow> vs) = []"
      by (auto simp: zeroResults_def split: awaited.splits option.splits)
    have "\<exists>ext. snd res = (tr @ [Search q1, Search q2]) @ ext \<and> catalogQueries ext = []"
      unfolding res_eq using pick[of _ "tr @ [Search q1, Search q2]"]
      by (auto simp: f z Let_def split: awaited.splits option.splits) (metis snd_conv)
    then obtain ext where "snd res = tr @ ([Search q1, Search q2] @ ext)" "catalogQueries ext = []"
      by auto
    then show ?thesis using True by (intro exI[of _ "[Search q1, Search q2] @ ext"]) simp
  next
    case False
    have "\<exists>ext. snd res = (tr @ [Search q1]) @ ext \<and> catalogQueries ext = []"
      unfolding res_eq using pick[of _ "tr @ [Search q1]"] False
      by (auto simp: zeroResults_def Let_def split: awaited.splits option.splits) (metis snd_conv)+
    then obtain ext where "snd res = tr @ ([Search q1] @ ext)" "catalogQueries ext = []"
      by auto
    then show ?thesis using False by (intro exI[of _ "[Search q1] @ ext"]) simp
  qed
  have both: "zeroResults first \<and> zeroResults second \<longrightarrow> fst res = Inr None"
    unfolding res_eq by (auto simp: zeroResults_def Let_def split: awaited.splits option.splits)
  have thrown: "first = Threw \<or> first = Resolved None \<longrightarrow> fst res = Inr None"
    unfolding res_eq by auto
  have thrown2: "zeroResults first \<and> (second = Threw \<or> second = Resolved None) \<longrightarrow> fst res = Inr None"
    unfolding res_eq by (auto simp: zeroResults_def Let_def split: awaited.splits option.splits)
  show ?thesis
    using total trace both thrown thrown2
    unfolding Let_def res_def first_def second_def q1_def q2_def by blast
qed

theorem searchForTopic_contained_witness:
  "zeroResults (ytSearch quietWorld 0 (ascii ''DSA Arrays''))
   \<and> zeroResults (ytSearch quietWorld 1 (ascii ''Arrays''))
   \<and> searchForTopic quietWorld (ascii ''Arrays'') (ascii ''DSA'') fromScratchWindow 0 []
       = (Inr None, [Search (ascii ''DSA Arrays''), Search (ascii ''Arrays'')])
   \<and> ytSearch throwingWorld 0 (ascii ''DSA Arrays'') = Threw
   \<and> fst (searchForTopic throwingWorld (ascii ''Arrays'') (ascii ''DSA'') fromScratchWindow 0 []) = Inr None"
proof -
  have q1: "filterBooleanJoin [ascii ''DSA'' @ ascii '' '' @ ascii ''Arrays'', []] = ascii ''DSA Arrays''"
    by (simp add: filterBooleanJoin_def ascii_def)
  have q2: "trim (ascii ''Arrays'' @ ascii '' '') = ascii ''Arrays''"
    by (simp add: trim_def ascii_def isWhiteSpace_def)
  have z: "zeroResults (ytSearch quietWorld n q)" for n q
    by (simp add: zeroResults_def catalogAnswer_def)
  have t: "ytSearch throwingWorld n q = Threw" for n q
    by (simp add: throwingWorld_def)
  note quiet = searchForTopic_contained[of quietWorld "ascii ''DSA''" "ascii ''Arrays''"
                 fromScratchWindow "[]" 0, unfolded Let_def]
  note throwing = searchForTopic_contained[of throwingWorld "ascii ''DSA''" "ascii ''Arrays''"
                 fromScratchWindow "[]" 0, unfolded Let_def]
  have a: "fst (searchForTopic quietWorld (ascii ''Arrays'') (ascii ''DSA'') fromScratchWindow 0 []) = Inr None"
    using quiet z by blast
  have c: "snd (searchForTopic quietWorld (ascii ''Arrays'') (ascii ''DSA'') fromScratchWindow 0 [])
        = [Search (ascii ''DSA Arrays''), Search (ascii ''Arrays'')]"
    by (simp add: searchForTopic_def Let_def q1 q2 catalogAnswer_def)
  have d: "fst (searchForTopic throwingWorld (ascii ''Arrays'') (ascii ''DSA'') fromScratchWindow 0 []) = Inr None"
    using throwing t by blast
  show ?thesis using z t a c d by (simp add: prod_eq_iff)
qed

lemma pickBestVideo_eq:
  assumes r: "rankByDensity (toLowerCase w) (durationPool (map toCandidate (take 15 rawVideos)) modifiers) = ranked"
    and ne: "ranked \<noteq> []"
  shows "pickBestVideo w rawVideos topic modifiers position tr =
     (if 3 \<le> length ranked
      then (let rr = vibeCheckRerank w (rerankerInput (take 5 ranked) topic modifiers) tr;
                winnerId = (case rr_winnerId (fst rr) of
                              None \<Rightarrow> vc_videoId (hd ranked)
                            | Some wid \<Rightarrow> if wid \<noteq> [] then wid else vc_videoId (hd ranked))
            in (Inr (Some (toEntry (case find (\<lambda>v. vc_videoId v = winnerId) ranked of
                                      Some v \<Rightarrow> v | None \<Rightarrow> hd ranked) topic position)), snd rr))
      else (Inr (Some (toEntry (hd ranked) topic position)), tr))"
proof -
  obtain best others where bo: "ranked = best # others" using ne by (cases ranked) auto
  have pool: "durationPool (map toCandidate (take 15 rawVideos)) modifiers \<noteq> []"
    using r ne rankByDensity_Nil_iff by blast
  show ?thesis
  proof (cases "3 \<le> length ranked")
    case True
    obtain rr tr' where v: "vibeCheckRerank w (rerankerInput (take 5 ranked) topic modifiers) tr = (rr, tr')"
      by (cases "vibeCheckRerank w (rerankerInput (take 5 ranked) topic modifiers) tr")
    show ?thesis
      using True pool v[unfolded bo]
      by (simp add: pickBestVideo_def r bo Let_def USE_RERANKER_def v split: option.splits del: One_nat_def)
  next
    case False
    then show ?thesis
      using pool by (simp add: pickBestVideo_def r bo Let_def USE_RERANKER_def)
  qed
qed

lemma vibeCheckRerank_winner:
  "rr_winnerId (fst (vibeCheckRerank w input tr)) = Some wid \<Longrightarrow> wid \<noteq> [] \<and> length wid = 11"
  by (auto simp: vibeCheckRerank_def nullResult_def split: if_splits awaited.splits option.splits)

lemma vibeCheckRerank_failure:
  "\<not> GEMINI_API_KEY w \<or> generateContentWithFailover w (length tr) input = Threw
   \<Longrightarrow> rr_winnerId (fst (vibeCheckRerank w input tr)) = None"
  by (auto simp: vibeCheckRerank_def nullResult_def)

text \<open>
  C2, as stated, fails: six candidates of equal score are ranked, the first five are
  submitted, the reranker names the sixth, and the resolver returns the sixth, not the
  Scorer's top pick.
\<close>

theorem rerank_outside_top5_counterexample:
  "3 \<le> length sixRanked
   \<and> rr_winnerId (fst (vibeCheckRerank rerankWorld
         (rerankerInput (take 5 sixRanked) (ascii ''Arrays'') fromScratchWindow) []))
       = Some (ascii ''aaaaaaaaaa6'')
   \<and> ascii ''aaaaaaaaaa6'' \<notin> set (map vc_videoId
         (ri_candidates (rerankerInput (take 5 sixRanked) (ascii ''Arrays'') fromScratchWindow)))
   \<and> fst (pickBestVideo rerankWorld sixVideos (ascii ''Arrays'') fromScratchWindow 0 [])
       = Inr (Some (toEntry (sixRanked ! 5) (ascii ''Arrays'') 0))
   \<and> toEntry (sixRanked ! 5) (ascii ''Arrays'') 0 \<noteq> toEntry (sixRanked ! 0) (ascii ''Arrays'') 0"
proof -
  have 1: "3 \<le> length sixRanked" by (simp add: sixRanked_eq)
  have 2: "rr_winnerId (fst (vibeCheckRerank rerankWorld
         (rerankerInput (take 5 sixRanked) (ascii ''Arrays'') fromScratchWindow) []))
       = Some (ascii ''aaaaaaaaaa6'')"
    by (simp add: six_winner)
  have 3: "ascii ''aaaaaaaaaa6'' \<notin> set (map vc_videoId
         (ri_candidates (rerankerInput (take 5 sixRanked) (ascii ''Arrays'') fromScratchWindow)))"
    using id6_distinct by (simp add: rerankerInput_def sixRanked_eq)
  have r: "rankByDensity lowerASCII (map toCandidate sixVideos) = sixRanked"
    using sixPool by (simp add: sixRanked_def)
  have ne: "ascii ''aaaaaaaaaa6'' \<noteq> []" by (simp add: ascii_def)
  have f: "find (\<lambda>v. vc_videoId v = ascii ''aaaaaaaaaa6'') sixRanked = Some (sixRanked ! 5)"
    using id6_distinct by (simp add: sixRanked_eq)
  have 4: "fst (pickBestVideo rerankWorld sixVideos (ascii ''Arrays'') fromScratchWindow 0 [])
       = Inr (Some (toEntry (sixRanked ! 5) (ascii ''Arrays'') 0))"
  proof -
    have r0: "rankByDensity (toLowerCase rerankWorld)
                (durationPool (map toCandidate (take 15 sixVideos)) fromScratchWindow) = sixRanked"
      by (simp only: sixRanked_def)
    have ne0: "sixRanked \<noteq> []" using 1 by auto
    show ?thesis
      using 1 f ne
      by (simp add: pickBestVideo_eq[OF r0 ne0] six_winner Let_def)
  qed
  have 5: "toEntry (sixRanked ! 5) (ascii ''Arrays'') 0 \<noteq> toEntry (sixRanked ! 0) (ascii ''Arrays'') 0"
    using id6_distinct by (simp add: sixRanked_eq toEntry_def)
  show ?thesis using 1 2 3 4 5 by blast
qed

text \<open>
  C2, amended. When the ranked pool has at least three candidates: a winner id that is the id
  of no candidate of the whole ranked pool is ignored and the entry of the Scorer's top pick
  is returned; a winner id found in the ranked pool selects the first candidate with that id,
  also one outside the five submitted; and a reranker that has no key, throws or returns no
  winner leaves the Scorer's top pick.
\<close>

theorem rerank_strict_fallback:
  assumes "ranked = rankByDensity (toLowerCase w)
                      (durationPool (map toCandidate (take 15 rawVideos)) modifiers)"
    and "3 \<le> length ranked"
    and "reranked = fst (vibeCheckRerank w (rerankerInput (take 5 ranked) topic modifiers) tr)"
  shows "(rr_winnerId reranked = None \<longrightarrow>
            fst (pickBestVideo w rawVideos topic modifiers position tr)
              = Inr (Some (toEntry (hd ranked) topic position)))
       \<and> (\<forall>wid. rr_winnerId reranked = Some wid \<and> wid \<notin> set (map vc_videoId ranked) \<longrightarrow>
            fst (pickBestVideo w rawVideos topic modifiers position tr)
              = Inr (Some (toEntry (hd ranked) topic position)))
       \<and> (\<forall>wid v. rr_winnerId reranked = Some wid \<and> find (\<lambda>v. vc_videoId v = wid) ranked = Some v \<longrightarrow>
            fst (pickBestVideo w rawVideos topic modifiers position tr)
              = Inr (Some (toEntry v topic position)))
       \<and> (\<not> GEMINI_API_KEY w
            \<or> generateContentWithFailover w (length tr) (rerankerInput (take 5 ranked) topic modifiers) = Threw
          \<longrightarrow> rr_winnerId reranked = None)"
proof -
  have r: "rankByDensity (toLowerCase w) (durationPool (map toCandidate (take 15 rawVideos)) modifiers) = ranked"
    using assms(1) by simp
  have ne: "ranked \<noteq> []" using assms(2) by auto
  note eq = pickBestVideo_eq[OF r ne, of topic position tr]
  have hd_find: "find (\<lambda>v. vc_videoId v = vc_videoId (hd ranked)) ranked = Some (hd ranked)"
    using ne by (cases ranked) auto
  have a: "rr_winnerId reranked = None \<longrightarrow>
            fst (pickBestVideo w rawVideos topic modifiers position tr)
              = Inr (Some (toEntry (hd ranked) topic position))"
    using assms(2,3) by (simp add: eq Let_def hd_find)
  have b: "\<forall>wid. rr_winnerId reranked = Some wid \<and> wid \<notin> set (map vc_videoId ranked) \<longrightarrow>
            fst (pickBestVideo w rawVideos topic modifiers position tr)
              = Inr (Some (toEntry (hd ranked) topic position))"
  proof (intro allI impI)
    fix wid assume h: "rr_winnerId reranked = Some wid \<and> wid \<notin> set (map vc_videoId ranked)"
    then have "find (\<lambda>v. vc_videoId v = wid) ranked = None"
      by (auto simp: find_None_iff)
    then show "fst (pickBestVideo w rawVideos topic modifiers position tr)
              = Inr (Some (toEntry (hd ranked) topic position))"
      using h assms(2,3) by (simp add: eq Let_def hd_find)
  qed
  have c: "\<forall>wid v. rr_winnerId reranked = Some wid \<and> find (\<lambda>v. vc_videoId v = wid) ranked = Some v \<longrightarrow>
            fst (pickBestVideo w rawVideos topic modifiers position tr)
              = Inr (Some (toEntry v topic position))"
  proof (intro allI impI)
    fix wid v assume h: "rr_winnerId reranked = Some wid \<and> find (\<lambda>v. vc_videoId v = wid) ranked = Some v"
    then have "wid \<noteq> []" using vibeCheckRerank_winner assms(3) by blast
    then show "fst (pickBestVideo w rawVideos topic modifiers position tr)
              = Inr (Some (toEntry v topic position))"
      using h assms(2,3) by (simp add: eq Let_def)
  qed
  have d: "\<not> GEMINI_API_KEY w
            \<or> generateContentWithFailover w (length tr) (rerankerInput (take 5 ranked) topic modifiers) = Threw
          \<longrightarrow> rr_winnerId reranked = None"
    unfolding assms(3) using vibeCheckRerank_failure by blast
  show ?thesis using a b c d by blast
qed

theorem rerank_strict_fallback_witness:
  "3 \<le> length sixRanked
   \<and> rr_winnerId (fst (vibeCheckRerank strayWorld
        (rerankerInput (take 5 sixRanked) (ascii ''Arrays'') fromScratchWindow) [])) = Some (ascii ''zzzzzzzzzzz'')
   \<and> ascii ''zzzzzzzzzzz'' \<notin> set (map vc_videoId sixRanked)
   \<and> fst (pickBestVideo strayWorld sixVideos (ascii ''Arrays'') fromScratchWindow 0 [])
       = Inr (Some (toEntry (hd sixRanked) (ascii ''Arrays'') 0))
   \<and> \<not> GEMINI_API_KEY quietWorld
   \<and> fst (pickBestVideo quietWorld sixVideos (ascii ''Arrays'') fromScratchWindow 0 [])
       = Inr (Some (toEntry (hd sixRanked) (ascii ''Arrays'') 0))"
proof -
  have r1: "sixRanked = rankByDensity (toLowerCase strayWorld)
              (durationPool (map toCandidate (take 15 sixVideos)) fromScratchWindow)"
    by (simp add: sixRanked_def)
  have r2: "sixRanked = rankByDensity (toLowerCase quietWorld)
              (durationPool (map toCandidate (take 15 sixVideos)) fromScratchWindow)"
    by (simp add: sixRanked_def)
  have l: "3 \<le> length sixRanked" by (simp add: sixRanked_eq)
  have s: "ascii ''zzzzzzzzzzz'' \<notin> set (map vc_videoId sixRanked)"
    using stray_distinct by (simp add: sixRanked_eq)
  have q: "rr_winnerId (fst (vibeCheckRerank quietWorld
        (rerankerInput (take 5 sixRanked) (ascii ''Arrays'') fromScratchWindow) [])) = None"
    by (simp add: vibeCheckRerank_def nullResult_def)
  from rerank_strict_fallback[OF r1 l refl, of "ascii ''Arrays''" "[]" 0] stray_winner s
  have 1: "fst (pickBestVideo strayWorld sixVideos (ascii ''Arrays'') fromScratchWindow 0 [])
       = Inr (Some (toEntry (hd sixRanked) (ascii ''Arrays'') 0))"
    by blast
  from rerank_strict_fallback[OF r2 l refl, of "ascii ''Arrays''" "[]" 0] q
  have 2: "fst (pickBestVideo quietWorld sixVideos (ascii ''Arrays'') fromScratchWindow 0 [])
       = Inr (Some (toEntry (hd sixRanked) (ascii ''Arrays'') 0))"
    by blast
  show ?thesis using l stray_winner s 1 2 by simp
qed

section \<open>Properties of the gap filler\<close>

lemma pickBestVideo_entry:
  "pickBestVideo w rawVideos topic modifiers position tr = (Inr (Some e), tr')
   \<Longrightarrow> pe_position e = position \<and> pe_topicMatched e = topic \<and> pe_source e = gap_fill"
  by (auto simp: pickBestVideo_def Let_def toEntry_def split: if_splits list.splits prod.splits)

lemma searchForTopic_Inr:
  "\<exists>r tr'. searchForTopic w topic subject modifiers position tr = (Inr r, tr')"
proof -
  have pick: "\<exists>r tr'. pickBestVideo w vs topic modifiers position t = (Inr r, tr')" for vs t
    using pickBestVideo_total_trace[of w vs topic modifiers position t] by blast
  show ?thesis
    unfolding searchForTopic_def Let_def using pick
    by (auto split: awaited.splits option.splits)
qed

lemma searchForTopic_entry:
  "searchForTopic w topic subject modifiers position tr = (Inr (Some e), tr')
   \<Longrightarrow> pe_position e = position \<and> pe_topicMatched e = topic \<and> pe_source e = gap_fill"
  unfolding searchForTopic_def Let_def
  by (auto split: awaited.splits option.splits if_splits dest: pickBestVideo_entry)

lemma update_fresh: "k \<notin> fst ` set al \<Longrightarrow> AList.update k v al = al @ [(k, v)]"
  by (induction al) auto

text \<open>What the loop of fillGaps returns.\<close>

lemma fillLoop_spec:
  assumes "distinct (map tm_position gaps)"
    and "set (map tm_position gaps) \<inter> fst ` set gm = {}"
  shows "\<exists>failed' new tr'.
           fillLoop w subject modifiers gaps failed gm tr = (Inr (failed @ failed', gm @ new), tr')
         \<and> map fst new = filter (\<lambda>p. p \<in> fst ` set new) (map tm_position gaps)
         \<and> length new + length failed' = length gaps
         \<and> (\<forall>(k, e) \<in> set new. pe_position e = k)"
  using assms
proof (induction gaps arbitrary: failed gm tr)
  case Nil
  then show ?case by simp
next
  case (Cons gap gaps)
  let ?p = "tm_position gap"
  obtain r tr1 where s: "searchForTopic w (tm_topic gap) subject modifiers ?p tr = (Inr r, tr1)"
    using searchForTopic_Inr by blast
  have d: "distinct (map tm_position gaps)" and notin: "?p \<notin> set (map tm_position gaps)"
    using Cons.prems(1) by simp_all
  have fresh: "?p \<notin> fst ` set gm" using Cons.prems(2) by auto
  show ?case
  proof (cases r)
    case None
    have disj: "set (map tm_position gaps) \<inter> fst ` set gm = {}" using Cons.prems(2) by auto
    from Cons.IH[OF d disj, of "failed @ [tm_topic gap]" tr1]
    obtain failed' new tr' where
      f: "fillLoop w subject modifiers gaps (failed @ [tm_topic gap]) gm tr1
            = (Inr ((failed @ [tm_topic gap]) @ failed', gm @ new), tr')"
      and k: "map fst new = filter (\<lambda>p. p \<in> fst ` set new) (map tm_position gaps)"
      and l: "length new + length failed' = length gaps"
      and e: "\<forall>(k, e) \<in> set new. pe_position e = k"
      by blast
    have pn: "?p \<notin> fst ` set new"
    proof
      assume "?p \<in> fst ` set new"
      then have "?p \<in> set (map fst new)" by simp
      then have "?p \<in> set (filter (\<lambda>p. p \<in> fst ` set new) (map tm_position gaps))"
        using k by simp
      then have "?p \<in> set (map tm_position gaps)" by auto
      with notin show False by simp
    qed
    show ?thesis
      apply (rule exI[of _ "tm_topic gap # failed'"], rule exI[of _ new], rule exI[of _ tr'])
      using f k l e pn by (simp add: s None)
  next
    case (Some entry)
    have pos: "pe_position entry = ?p" using searchForTopic_entry s Some by blast
    have upd: "AList.update ?p entry gm = gm @ [(?p, entry)]" using fresh by (rule update_fresh)
    have disj: "set (map tm_position gaps) \<inter> fst ` set (gm @ [(?p, entry)]) = {}"
      using Cons.prems(2) notin by auto
    from Cons.IH[OF d disj, of failed tr1]
    obtain failed' new tr' where
      f: "fillLoop w subject modifiers gaps failed (gm @ [(?p, entry)]) tr1
            = (Inr (failed @ failed', (gm @ [(?p, entry)]) @ new), tr')"
      and k: "map fst new = filter (\<lambda>p. p \<in> fst ` set new) (map tm_position gaps)"
      and l: "length new + length failed' = length gaps"
      and e: "\<forall>(k, e) \<in> set new. pe_position e = k"
      by blast
    have k': "filter (\<lambda>p. p = ?p \<or> p \<in> fst ` set new) (map tm_position gaps)
                = filter (\<lambda>p. p \<in> fst ` set new) (map tm_position gaps)"
    proof (intro filter_cong refl)
      fix p assume "p \<in> set (map tm_position gaps)"
      then have "p \<noteq> ?p" using notin by metis
      then show "(p = ?p \<or> p \<in> fst ` set new) = (p \<in> fst ` set new)" by auto
    qed
    show ?thesis
      apply (rule exI[of _ failed'], rule exI[of _ "(?p, entry) # new"], rule exI[of _ tr'])
      using f k l e pos by (simp add: s Some upd k')
  qed
qed


lemma mapTopicsToAnchor_positions:
  "map tm_position (mapTopicsToAnchor w toc vs) = [0..<length toc]"
proof -
  have "tm_position (mapTopic w vs pt) = fst pt" for pt
    by (simp add: mapTopic_def split: option.splits prod.splits)
  then show ?thesis
    by (simp add: mapTopicsToAnchor_def comp_def map_fst_enumerate)
qed

lemma mapTopicsToAnchor_topics: "map tm_topic (mapTopicsToAnchor w toc vs) = toc"
proof -
  have "tm_topic (mapTopic w vs pt) = snd pt" for pt
    by (simp add: mapTopic_def split: option.splits prod.splits)
  then show ?thesis
    by (simp add: mapTopicsToAnchor_def comp_def)
qed

lemma mapTopicsToAnchor_wf:
  "m \<in> set (mapTopicsToAnchor w toc vs) \<Longrightarrow> tm_isGap m \<longleftrightarrow> tm_anchorVideo m = None"
  by (auto simp: mapTopicsToAnchor_def mapTopic_def split: option.splits prod.splits)

lemma length_mapTopicsToAnchor [simp]: "length (mapTopicsToAnchor w toc vs) = length toc"
  by (simp add: mapTopicsToAnchor_def)

text \<open>The number of entries that the merge loop emits.\<close>

lemma length_mergeLoop:
  assumes "\<forall>m \<in> set ms. tm_isGap m \<longleftrightarrow> tm_anchorVideo m = None"
  shows "length (mergeLoop a gm ms acc)
           = length acc + length (filter (\<lambda>m. \<not> tm_isGap m) ms)
             + length (filter (\<lambda>p. p \<in> fst ` set gm) (map tm_position (filter tm_isGap ms)))"
  using assms
proof (induction ms arbitrary: acc)
  case Nil
  then show ?case by simp
next
  case (Cons m ms)
  have wf: "tm_isGap m \<longleftrightarrow> tm_anchorVideo m = None" using Cons.prems by simp
  have rest: "\<forall>m \<in> set ms. tm_isGap m \<longleftrightarrow> tm_anchorVideo m = None" using Cons.prems by simp
  show ?case
  proof (cases "tm_isGap m")
    case True
    then have n: "tm_anchorVideo m = None" using wf by simp
    show ?thesis
    proof (cases "map_of gm (tm_position m)")
      case None
      then have "tm_position m \<notin> fst ` set gm" by (simp add: map_of_eq_None_iff)
      then show ?thesis using True n None Cons.IH[OF rest] by simp
    next
      case (Some e)
      then have "tm_position m \<in> fst ` set gm" by (metis map_of_eq_None_iff option.distinct(1))
      then show ?thesis using True n Some Cons.IH[OF rest] by simp
    qed
  next
    case False
    then obtain av where "tm_anchorVideo m = Some av" using wf by auto
    then show ?thesis using False Cons.IH[OF rest] by simp
  qed
qed

lemma length_filter_keys:
  assumes "distinct ps" and "map fst new = filter (\<lambda>p. p \<in> fst ` set new) ps"
  shows "length (filter (\<lambda>p. p \<in> fst ` set new) ps) = length new"
  using assms(2) by (metis length_map)

lemma length_renumber [simp]: "length (renumber es) = length es"
  by (simp add: renumber_def)

lemma positions_renumber: "map pe_position (renumber es) = [0..<length es]"
proof -
  have "map pe_position (renumber es) = map fst (enumerate 0 es)"
    by (simp add: renumber_def comp_def case_prod_unfold)
  then show ?thesis by (simp add: map_fst_enumerate)
qed

lemma gaps_positions:
  "distinct (map tm_position (filter tm_isGap (mapTopicsToAnchor w toc vs)))"
proof -
  have "distinct (map tm_position (mapTopicsToAnchor w toc vs))"
    by (simp add: mapTopicsToAnchor_positions)
  then show ?thesis by (rule distinct_map_filter)
qed

text \<open>fillGaps always returns, and what it returns.\<close>

lemma fillGaps_spec:
  "\<exists>failed new tr'.
      fillGaps w anc toc subject modifiers tr
        = (Inr \<lparr>entries = resequence (mapTopicsToAnchor w toc (ap_videos anc)) anc new,
                gapsFound = length (filter tm_isGap (mapTopicsToAnchor w toc (ap_videos anc))),
                gapsFilled = length new,
                gapsFailed = failed\<rparr>, tr')
    \<and> fillLoop w subject modifiers (filter tm_isGap (mapTopicsToAnchor w toc (ap_videos anc))) [] [] tr
        = (Inr (failed, new), tr')
    \<and> map fst new = filter (\<lambda>p. p \<in> fst ` set new)
                       (map tm_position (filter tm_isGap (mapTopicsToAnchor w toc (ap_videos anc))))
    \<and> length new + length failed = length (filter tm_isGap (mapTopicsToAnchor w toc (ap_videos anc)))
    \<and> (\<forall>(k, e) \<in> set new. pe_position e = k)"
proof -
  let ?gaps = "filter tm_isGap (mapTopicsToAnchor w toc (ap_videos anc))"
  have d: "distinct (map tm_position ?gaps)" by (rule gaps_positions)
  have e0: "set (map tm_position ?gaps) \<inter> fst ` set ([] :: gapMap) = {}" by simp
  from fillLoop_spec[OF d e0, where w = w and subject = subject and modifiers = modifiers
         and failed = "[]" and tr = tr]
  obtain failed' new tr' where
    f: "fillLoop w subject modifiers ?gaps [] [] tr = (Inr ([] @ failed', [] @ new), tr')"
    and k: "map fst new = filter (\<lambda>p. p \<in> fst ` set new) (map tm_position ?gaps)"
    and l: "length new + length failed' = length ?gaps"
    and e: "\<forall>(k, e) \<in> set new. pe_position e = k"
    by auto
  show ?thesis
    apply (rule exI[of _ failed'], rule exI[of _ new], rule exI[of _ tr'])
    using f k l e by (simp add: fillGaps_def Let_def)
qed

lemma length_resequence:
  assumes "map fst new = filter (\<lambda>p. p \<in> fst ` set new)
                       (map tm_position (filter tm_isGap (mapTopicsToAnchor w toc vs)))"
  shows "length (resequence (mapTopicsToAnchor w toc vs) anc new)
           = length (filter (\<lambda>m. \<not> tm_isGap m) (mapTopicsToAnchor w toc vs)) + length new"
proof -
  let ?ms = "mapTopicsToAnchor w toc vs"
  have wf: "\<forall>m \<in> set ?ms. tm_isGap m \<longleftrightarrow> tm_anchorVideo m = None"
    using mapTopicsToAnchor_wf by blast
  have "length (filter (\<lambda>p. p \<in> fst ` set new) (map tm_position (filter tm_isGap ?ms))) = length new"
    using length_filter_keys[OF gaps_positions assms] .
  then show ?thesis
    by (simp add: resequence_def length_mergeLoop[OF wf])
qed

lemma scratchLoop_spec:
  "\<exists>new failed' tr'.
      scratchLoop w subject modifiers i toc es failed tr = (Inr (es @ new, failed @ failed'), tr')
    \<and> length new + length failed' = length toc"
proof (induction toc arbitrary: i es failed tr)
  case Nil
  then show ?case by simp
next
  case (Cons topic topics)
  obtain r tr1 where s: "searchForTopic w topic subject modifiers i tr = (Inr r, tr1)"
    using searchForTopic_Inr by blast
  show ?case
  proof (cases r)
    case None
    from Cons.IH[of "i + 1" es "failed @ [topic]" tr1]
    obtain new failed' tr' where
      "scratchLoop w subject modifiers (i + 1) topics es (failed @ [topic]) tr1
         = (Inr (es @ new, (failed @ [topic]) @ failed'), tr')"
      "length new + length failed' = length topics" by blast
    then show ?thesis
      by (intro exI[of _ new] exI[of _ "topic # failed'"] exI[of _ tr']) (simp add: s None)
  next
    case (Some entry)
    from Cons.IH[of "i + 1" "es @ [entry]" failed tr1]
    obtain new failed' tr' where
      "scratchLoop w subject modifiers (i + 1) topics (es @ [entry]) failed tr1
         = (Inr ((es @ [entry]) @ new, failed @ failed'), tr')"
      "length new + length failed' = length topics" by blast
    then show ?thesis
      by (intro exI[of _ "entry # new"] exI[of _ failed'] exI[of _ tr']) (simp add: s Some)
  qed
qed


text \<open>
  C10. Every build returns a result, in which the filled and the failed gaps add up to the
  gaps found, and the number of entries is the number of topics less the failed ones.
\<close>

theorem gap_accounting:
  "(\<exists>r tr'. fillGaps w anc toc subject modifiers tr = (Inr r, tr')
        \<and> gapsFilled r + length (gapsFailed r) = gapsFound r
        \<and> length (gapsFailed r) \<le> length toc
        \<and> length (entries r) = length toc - length (gapsFailed r))
   \<and> (\<exists>r tr'. buildFromScratch w toc subject modifiers tr = (Inr r, tr')
        \<and> gapsFilled r + length (gapsFailed r) = gapsFound r
        \<and> length (gapsFailed r) \<le> length toc
        \<and> length (entries r) = length toc - length (gapsFailed r))"
proof
  let ?ms = "mapTopicsToAnchor w toc (ap_videos anc)"
  from fillGaps_spec[of w anc toc subject modifiers tr]
  obtain failed new tr' where
    f: "fillGaps w anc toc subject modifiers tr
        = (Inr \<lparr>entries = resequence ?ms anc new, gapsFound = length (filter tm_isGap ?ms),
                gapsFilled = length new, gapsFailed = failed\<rparr>, tr')"
    and k: "map fst new = filter (\<lambda>p. p \<in> fst ` set new) (map tm_position (filter tm_isGap ?ms))"
    and l: "length new + length failed = length (filter tm_isGap ?ms)"
    by blast
  have n: "length (filter (\<lambda>m. \<not> tm_isGap m) ?ms) + length (filter tm_isGap ?ms) = length toc"
    using sum_length_filter_compl[of tm_isGap ?ms] by simp
  have e: "length (resequence ?ms anc new) = length (filter (\<lambda>m. \<not> tm_isGap m) ?ms) + length new"
    using length_resequence[OF k] .
  show "\<exists>r tr'. fillGaps w anc toc subject modifiers tr = (Inr r, tr')
        \<and> gapsFilled r + length (gapsFailed r) = gapsFound r
        \<and> length (gapsFailed r) \<le> length toc
        \<and> length (entries r) = length toc - length (gapsFailed r)"
    using f l n e by auto
next
  from scratchLoop_spec[of w subject modifiers 0 toc "[]" "[]" tr]
  obtain new failed' tr' where
    s: "scratchLoop w subject modifiers 0 toc [] [] tr = (Inr (new, failed'), tr')"
    and l: "length new + length failed' = length toc"
    by auto
  show "\<exists>r tr'. buildFromScratch w toc subject modifiers tr = (Inr r, tr')
        \<and> gapsFilled r + length (gapsFailed r) = gapsFound r
        \<and> length (gapsFailed r) \<le> length toc
        \<and> length (entries r) = length toc - length (gapsFailed r)"
    using s l by (auto simp: buildFromScratch_def)
qed

text \<open>The result of fillGaps is numbered from 0 without gaps.\<close>

lemma fillGaps_positions:
  "\<exists>r tr'. fillGaps w anc toc subject modifiers tr = (Inr r, tr')
        \<and> map pe_position (entries r) = [0..<length (entries r)]"
proof -
  from fillGaps_spec[of w anc toc subject modifiers tr]
  obtain failed new tr' where
    f: "fillGaps w anc toc subject modifiers tr
        = (Inr \<lparr>entries = resequence (mapTopicsToAnchor w toc (ap_videos anc)) anc new,
                gapsFound = length (filter tm_isGap (mapTopicsToAnchor w toc (ap_videos anc))),
                gapsFilled = length new, gapsFailed = failed\<rparr>, tr')"
    by blast
  have "map pe_position (resequence (mapTopicsToAnchor w toc (ap_videos anc)) anc new)
          = [0..<length (resequence (mapTopicsToAnchor w toc (ap_videos anc)) anc new)]"
    by (simp add: resequence_def positions_renumber)
  then show ?thesis using f by auto
qed

text \<open>With no topic matched, the two loops make the same calls and collect the same entries.\<close>

lemma fill_scratch_sim:
  assumes "map tm_position gaps = [i..<i + length toc]"
    and "map tm_topic gaps = toc"
    and "\<forall>k \<in> fst ` set gm. k < i"
  shows "\<exists>failed' new tr'.
           fillLoop w subject modifiers gaps failed gm tr = (Inr (failed @ failed', gm @ new), tr')
         \<and> scratchLoop w subject modifiers i toc es failed2 tr
             = (Inr (es @ map snd new, failed2 @ failed'), tr')"
  using assms
proof (induction toc arbitrary: gaps i failed failed2 gm es tr)
  case Nil
  then show ?case by simp
next
  case (Cons topic topics)
  from Cons.prems(2) obtain g gs where g: "gaps = g # gs" "tm_topic g = topic" "map tm_topic gs = topics"
    by (auto simp: map_eq_Cons_conv)
  have "[i..<i + length (topic # topics)] = i # [Suc i..<Suc i + length topics]"
    using upt_rec[of i "i + length (topic # topics)"] by simp
  with Cons.prems(1) g(1) have p: "tm_position g = i" "map tm_position gs = [Suc i..<Suc i + length topics]"
    by simp_all
  obtain r tr1 where s: "searchForTopic w topic subject modifiers i tr = (Inr r, tr1)"
    using searchForTopic_Inr by blast
  show ?case
  proof (cases r)
    case None
    have k: "\<forall>k \<in> fst ` set gm. k < Suc i" using Cons.prems(3) by auto
    from Cons.IH[OF p(2) g(3) k, of "failed @ [topic]" tr1 es "failed2 @ [topic]"]
    obtain failed' new tr' where
      "fillLoop w subject modifiers gs (failed @ [topic]) gm tr1
         = (Inr ((failed @ [topic]) @ failed', gm @ new), tr')"
      "scratchLoop w subject modifiers (Suc i) topics es (failed2 @ [topic]) tr1
         = (Inr (es @ map snd new, (failed2 @ [topic]) @ failed'), tr')"
      by blast
    then show ?thesis
      by (intro exI[of _ "topic # failed'"] exI[of _ new] exI[of _ tr'])
         (simp add: g p s None)
  next
    case (Some entry)
    have fresh: "i \<notin> fst ` set gm" using Cons.prems(3) by auto
    have upd: "AList.update i entry gm = gm @ [(i, entry)]" using fresh by (rule update_fresh)
    have k: "\<forall>k \<in> fst ` set (gm @ [(i, entry)]). k < Suc i" using Cons.prems(3) by auto
    from Cons.IH[OF p(2) g(3) k, of failed tr1 "es @ [entry]" failed2]
    obtain failed' new tr' where
      "fillLoop w subject modifiers gs failed (gm @ [(i, entry)]) tr1
         = (Inr (failed @ failed', (gm @ [(i, entry)]) @ new), tr')"
      "scratchLoop w subject modifiers (Suc i) topics (es @ [entry]) failed2 tr1
         = (Inr ((es @ [entry]) @ map snd new, failed2 @ failed'), tr')"
      by blast
    then show ?thesis
      by (intro exI[of _ failed'] exI[of _ "(i, entry) # new"] exI[of _ tr'])
         (simp add: g p s Some upd)
  qed
qed

lemma mergeLoop_cong:
  "\<forall>m \<in> set ms. map_of gm (tm_position m) = map_of gm' (tm_position m)
   \<Longrightarrow> mergeLoop a gm ms acc = mergeLoop a gm' ms acc"
  by (induction ms arbitrary: acc) (auto split: bool.splits option.splits)

lemma mergeLoop_gaps:
  assumes "\<forall>m \<in> set ms. tm_isGap m"
    and "distinct (map tm_position ms)"
    and "map fst new = filter (\<lambda>p. p \<in> fst ` set new) (map tm_position ms)"
  shows "mergeLoop a new ms acc = acc @ map snd new"
  using assms
proof (induction ms arbitrary: new acc)
  case Nil
  then show ?case by simp
next
  case (Cons m ms)
  let ?p = "tm_position m"
  have gap: "tm_isGap m" and gaps: "\<forall>m \<in> set ms. tm_isGap m" using Cons.prems(1) by simp_all
  have d: "distinct (map tm_position ms)" and notin: "?p \<notin> set (map tm_position ms)"
    using Cons.prems(2) by simp_all
  show ?case
  proof (cases "?p \<in> fst ` set new")
    case True
    with Cons.prems(3) have "map fst new = ?p # filter (\<lambda>p. p \<in> fst ` set new) (map tm_position ms)"
      by simp
    then obtain e new' where n: "new = (?p, e) # new'"
      and k: "map fst new' = filter (\<lambda>p. p \<in> fst ` set new) (map tm_position ms)"
      by (auto simp: map_eq_Cons_conv)
    have k': "map fst new' = filter (\<lambda>p. p \<in> fst ` set new') (map tm_position ms)"
    proof -
      have "filter (\<lambda>p. p \<in> fst ` set new) (map tm_position ms)
              = filter (\<lambda>p. p \<in> fst ` set new') (map tm_position ms)"
      proof (intro filter_cong refl)
        fix p assume "p \<in> set (map tm_position ms)"
        then have "p \<noteq> ?p" using notin by metis
        then show "(p \<in> fst ` set new) = (p \<in> fst ` set new')" by (auto simp: n)
      qed
      with k show ?thesis by simp
    qed
    have agree: "\<forall>m' \<in> set ms. map_of new (tm_position m') = map_of new' (tm_position m')"
    proof
      fix m' assume "m' \<in> set ms"
      then have "tm_position m' \<noteq> ?p" using notin by (metis imageI list.set_map)
      then show "map_of new (tm_position m') = map_of new' (tm_position m')" by (simp add: n)
    qed
    have "mergeLoop a new (m # ms) acc = mergeLoop a new ms (acc @ [e])"
      using gap by (simp add: n split: option.splits)
    also have "\<dots> = mergeLoop a new' ms (acc @ [e])"
      using agree by (rule mergeLoop_cong)
    also have "\<dots> = (acc @ [e]) @ map snd new'"
      using Cons.IH[OF gaps d k'] .
    finally show ?thesis by (simp add: n)
  next
    case False
    then have none: "map_of new ?p = None" by (simp add: map_of_eq_None_iff)
    have k: "map fst new = filter (\<lambda>p. p \<in> fst ` set new) (map tm_position ms)"
      using Cons.prems(3) False by simp
    have "mergeLoop a new (m # ms) acc = mergeLoop a new ms acc"
      using gap none by (simp split: option.splits)
    then show ?thesis using Cons.IH[OF gaps d k] by simp
  qed
qed

text \<open>
  When the anchor matches no topic, fillGaps returns the entries of buildFromScratch
  renumbered, with the same failed topics and the same counts.
\<close>

lemma fillGaps_no_match:
  assumes "\<forall>m \<in> set (mapTopicsToAnchor w toc (ap_videos anc)). tm_isGap m"
  shows "\<exists>rf rb tr'.
           fillGaps w anc toc subject modifiers tr = (Inr rf, tr')
         \<and> buildFromScratch w toc subject modifiers tr = (Inr rb, tr')
         \<and> entries rf = renumber (entries rb)
         \<and> gapsFailed rf = gapsFailed rb
         \<and> gapsFound rf = gapsFound rb
         \<and> gapsFilled rf = gapsFilled rb"
proof -
  let ?ms = "mapTopicsToAnchor w toc (ap_videos anc)"
  have all: "filter tm_isGap ?ms = ?ms" using assms by simp
  from fillGaps_spec[of w anc toc subject modifiers tr]
  obtain failed new tr' where
    f: "fillGaps w anc toc subject modifiers tr
        = (Inr \<lparr>entries = resequence ?ms anc new, gapsFound = length ?ms,
                gapsFilled = length new, gapsFailed = failed\<rparr>, tr')"
    and fl: "fillLoop w subject modifiers ?ms [] [] tr = (Inr (failed, new), tr')"
    and k: "map fst new = filter (\<lambda>p. p \<in> fst ` set new) (map tm_position ?ms)"
    and e: "\<forall>(k, e) \<in> set new. pe_position e = k"
    unfolding all by blast
  have pos: "map tm_position ?ms = [0..<0 + length toc]"
    by (simp add: mapTopicsToAnchor_positions)
  have top: "map tm_topic ?ms = toc" by (rule mapTopicsToAnchor_topics)
  have k0: "\<forall>k \<in> fst ` set ([] :: gapMap). k < 0" by simp
  from fill_scratch_sim[OF pos top k0, of w subject modifiers "[]" tr "[]" "[]"] fl
  have sl: "scratchLoop w subject modifiers 0 toc [] [] tr = (Inr (map snd new, failed), tr')"
    by auto
  have d: "distinct (map tm_position ?ms)" by (simp add: mapTopicsToAnchor_positions)
  have m: "mergeLoop anc new ?ms [] = map snd new"
    using mergeLoop_gaps[OF assms d k, of anc "[]"] by simp
  have "map pe_position (map snd new) = map fst new"
    using e by (induction new) auto
  also have "\<dots> = filter (\<lambda>p. p \<in> fst ` set new) [0..<length toc]"
    using k by (simp add: mapTopicsToAnchor_positions)
  finally have "sorted (map pe_position (map snd new))" by (simp add: sorted_wrt_filter)
  then have srt: "sort_key pe_position (map snd new) = map snd new"
    by (rule sort_key_id_if_sorted)
  have r: "resequence ?ms anc new = renumber (map snd new)"
    by (simp add: resequence_def m srt)
  show ?thesis
    using f sl r by (auto simp: buildFromScratch_def)
qed

lemma lateWorld_fields [simp]:
  "toLowerCase lateWorld = lowerASCII"
  "\<not> GEMINI_API_KEY lateWorld"
  "ytSearch lateWorld n q = (if n < 2 then catalogAnswer [] else catalogAnswer [rawVideo (ascii ''aaaaaaaaaa1'') 700])"
  "fuseSearch lateWorld titles query = []"
  by (simp_all add: lateWorld_def quietWorld_def)

lemma rank_single:
  "rankByDensity lowerASCII (durationPool (map toCandidate (take 15 [rawVideo vid 700])) fromScratchWindow)
     = [scoredVideo vid 700]"
  by (simp add: durationPool_def durationWindow_def filterByDuration_def Let_def rankByDensity_def
        withDensity_rawVideo)

lemma pick_single:
  "toLowerCase w = lowerASCII \<Longrightarrow>
   pickBestVideo w [rawVideo vid 700] topic fromScratchWindow position tr
     = (Inr (Some (toEntry (scoredVideo vid 700) topic position)), tr)"
proof -
  assume w: "toLowerCase w = lowerASCII"
  have r: "rankByDensity (toLowerCase w)
             (durationPool (map toCandidate (take 15 [rawVideo vid 700])) fromScratchWindow)
           = [scoredVideo vid 700]"
    unfolding w by (rule rank_single)
  have ne: "[scoredVideo vid 700] \<noteq> []" by simp
  show ?thesis by (simp add: pickBestVideo_eq[OF r ne])
qed

lemma late_first:
  "fst (searchForTopic lateWorld topic subject fromScratchWindow position []) = Inr None
   \<and> length (snd (searchForTopic lateWorld topic subject fromScratchWindow position [])) = 2"
  by (simp add: searchForTopic_def Let_def catalogAnswer_def)

lemma late_later:
  "length tr = 2 \<Longrightarrow>
   fst (searchForTopic lateWorld topic subject fromScratchWindow position tr)
     = Inr (Some (toEntry (scoredVideo (ascii ''aaaaaaaaaa1'') 700) topic position))"
  by (simp add: searchForTopic_def Let_def catalogAnswer_def pick_single)

text \<open>
  C1 holds for fillGaps (lemma \<open>fillGaps_positions\<close>) and fails for buildFromScratch, which
  returns its entries with the index of their topic and does not renumber them. With two
  topics, of which the first finds no video and the second finds one, the only entry of the
  result has position 1.
\<close>

theorem buildFromScratch_positions_not_contiguous:
  "fst (buildFromScratch lateWorld twoTopics (ascii ''DSA'') fromScratchWindow [])
     = Inr \<lparr>entries = [toEntry (scoredVideo (ascii ''aaaaaaaaaa1'') 700) (ascii ''Linked Lists'') 1],
            gapsFound = 2, gapsFilled = 1, gapsFailed = [ascii ''Arrays'']\<rparr>
   \<and> map pe_position [toEntry (scoredVideo (ascii ''aaaaaaaaaa1'') 700) (ascii ''Linked Lists'') 1] = [1]"
proof -
  obtain tr1 where a: "searchForTopic lateWorld (ascii ''Arrays'') (ascii ''DSA'') fromScratchWindow 0 []
                        = (Inr None, tr1)" and l: "length tr1 = 2"
    using late_first[of "ascii ''Arrays''" "ascii ''DSA''" 0]
    by (cases "searchForTopic lateWorld (ascii ''Arrays'') (ascii ''DSA'') fromScratchWindow 0 []") auto
  obtain tr2 where b: "searchForTopic lateWorld (ascii ''Linked Lists'') (ascii ''DSA'') fromScratchWindow (Suc 0) tr1
      = (Inr (Some (toEntry (scoredVideo (ascii ''aaaaaaaaaa1'') 700) (ascii ''Linked Lists'') (Suc 0))), tr2)"
    using late_later[OF l, of "ascii ''Linked Lists''" "ascii ''DSA''" "Suc 0"]
    by (cases "searchForTopic lateWorld (ascii ''Linked Lists'') (ascii ''DSA'') fromScratchWindow (Suc 0) tr1") auto
  show ?thesis
    by (simp add: buildFromScratch_def twoTopics_def a b toEntry_def)
qed

text \<open>
  C3. The anchor matches neither topic. fillGaps and buildFromScratch return the same entry
  and the same failed topic, but fillGaps numbers the entry 0 and buildFromScratch leaves it
  at 1: the entries differ in a field other than the source. (By lemma
  \<open>fillGaps_no_match\<close> the position is the only difference.)
\<close>

theorem fillGaps_differs_from_scratch:
  "map tm_isGap (mapTopicsToAnchor lateWorld twoTopics (ap_videos cookingAnchor)) = [True, True]
   \<and> fst (fillGaps lateWorld cookingAnchor twoTopics (ascii ''DSA'') fromScratchWindow [])
     = Inr \<lparr>entries = [toEntry (scoredVideo (ascii ''aaaaaaaaaa1'') 700) (ascii ''Linked Lists'') 0],
            gapsFound = 2, gapsFilled = 1, gapsFailed = [ascii ''Arrays'']\<rparr>
   \<and> fst (buildFromScratch lateWorld twoTopics (ascii ''DSA'') fromScratchWindow [])
     = Inr \<lparr>entries = [toEntry (scoredVideo (ascii ''aaaaaaaaaa1'') 700) (ascii ''Linked Lists'') 1],
            gapsFound = 2, gapsFilled = 1, gapsFailed = [ascii ''Arrays'']\<rparr>
   \<and> toEntry (scoredVideo (ascii ''aaaaaaaaaa1'') 700) (ascii ''Linked Lists'') 0
       \<noteq> toEntry (scoredVideo (ascii ''aaaaaaaaaa1'') 700) (ascii ''Linked Lists'') 1"
proof -
  obtain tr1 where a: "searchForTopic lateWorld (ascii ''Arrays'') (ascii ''DSA'') fromScratchWindow 0 []
                        = (Inr None, tr1)" and l: "length tr1 = 2"
    using late_first[of "ascii ''Arrays''" "ascii ''DSA''" 0]
    by (cases "searchForTopic lateWorld (ascii ''Arrays'') (ascii ''DSA'') fromScratchWindow 0 []") auto
  obtain tr2 where b: "searchForTopic lateWorld (ascii ''Linked Lists'') (ascii ''DSA'') fromScratchWindow (Suc 0) tr1
      = (Inr (Some (toEntry (scoredVideo (ascii ''aaaaaaaaaa1'') 700) (ascii ''Linked Lists'') (Suc 0))), tr2)"
    using late_later[OF l, of "ascii ''Linked Lists''" "ascii ''DSA''" "Suc 0"]
    by (cases "searchForTopic lateWorld (ascii ''Linked Lists'') (ascii ''DSA'') fromScratchWindow (Suc 0) tr1") auto
  have ms: "mapTopicsToAnchor lateWorld twoTopics (ap_videos cookingAnchor)
     = [\<lparr>tm_topic = ascii ''Arrays'', tm_position = 0, tm_anchorVideo = None, tm_isGap = True, tm_matchScore = None\<rparr>,
        \<lparr>tm_topic = ascii ''Linked Lists'', tm_position = 1, tm_anchorVideo = None, tm_isGap = True, tm_matchScore = None\<rparr>]"
    by (simp add: mapTopicsToAnchor_def twoTopics_def mapTopic_def fuse_search_def bestMatch_def)
  have 1: "map tm_isGap (mapTopicsToAnchor lateWorld twoTopics (ap_videos cookingAnchor)) = [True, True]"
    by (simp add: ms)
  have 2: "fst (fillGaps lateWorld cookingAnchor twoTopics (ascii ''DSA'') fromScratchWindow [])
     = Inr \<lparr>entries = [toEntry (scoredVideo (ascii ''aaaaaaaaaa1'') 700) (ascii ''Linked Lists'') 0],
            gapsFound = 2, gapsFilled = 1, gapsFailed = [ascii ''Arrays'']\<rparr>"
    by (simp add: fillGaps_def Let_def ms a b resequence_def renumber_def toEntry_def)
  have 3: "fst (buildFromScratch lateWorld twoTopics (ascii ''DSA'') fromScratchWindow [])
     = Inr \<lparr>entries = [toEntry (scoredVideo (ascii ''aaaaaaaaaa1'') 700) (ascii ''Linked Lists'') 1],
            gapsFound = 2, gapsFilled = 1, gapsFailed = [ascii ''Arrays'']\<rparr>"
    by (simp add: buildFromScratch_def twoTopics_def a b)
  have 4: "toEntry (scoredVideo (ascii ''aaaaaaaaaa1'') 700) (ascii ''Linked Lists'') 0
       \<noteq> toEntry (scoredVideo (ascii ''aaaaaaaaaa1'') 700) (ascii ''Linked Lists'') 1"
    by (simp add: toEntry_def)
  show ?thesis using 1 2 3 4 by blast
qed

section \<open>Properties of the number model\<close>

lemma binade_bounds:
  assumes "0 < x"
  shows "2 powi (binade x) \<le> x \<and> x < 2 powi (binade x + 1)"
proof -
  obtain a b where q: "quotient_of x = (a, b)" by (cases "quotient_of x")
  have b: "0 < b" using quotient_of_denom_pos[OF q] .
  have x: "x = of_int a / of_int b" using quotient_of_div[OF q] .
  have a: "0 < a" using assms b x by (simp add: zero_less_divide_iff)
  let ?p = "bitlen a" and ?q = "bitlen b"
  have p1: "1 \<le> ?p" using a by (simp add: bitlen_alt_def)
  have q1: "1 \<le> ?q" using b by (simp add: bitlen_alt_def)
  from bitlen_bounds[OF a] have "(2::int) ^ nat (?p - 1) \<le> a" "a < 2 ^ nat ?p" by auto
  then have "(of_int (2 ^ nat (?p - 1)) :: rat) \<le> of_int a" "(of_int a :: rat) < of_int (2 ^ nat ?p)"
    by (simp_all only: of_int_le_iff of_int_less_iff)
  then have al: "(2::rat) powi (?p - 1) \<le> of_int a" and au: "(of_int a :: rat) < 2 powi ?p"
    using p1 by (simp_all add: power_int_def)
  from bitlen_bounds[OF b] have "(2::int) ^ nat (?q - 1) \<le> b" "b < 2 ^ nat ?q" by auto
  then have "(of_int (2 ^ nat (?q - 1)) :: rat) \<le> of_int b" "(of_int b :: rat) < of_int (2 ^ nat ?q)"
    by (simp_all only: of_int_le_iff of_int_less_iff)
  then have bl: "(2::rat) powi (?q - 1) \<le> of_int b" and bu: "(of_int b :: rat) < 2 powi ?q"
    using q1 by (simp_all add: power_int_def)
  have bpos: "(0::rat) < of_int b" using b by simp
  have apos: "(0::rat) < of_int a" using a by simp
  \<comment> \<open>upper: x < 2 powi (p - q + 1)\<close>
  have "x * 2 powi (?q - 1) \<le> x * of_int b"
    using bl assms by (intro mult_left_mono) auto
  also have "\<dots> = of_int a" using x bpos by simp
  also have "\<dots> < 2 powi ?p" by (rule au)
  finally have "x * 2 powi (?q - 1) < 2 powi ?p" .
  then have "x < 2 powi ?p / 2 powi (?q - 1)"
    by (simp add: pos_less_divide_eq)
  also have "\<dots> = 2 powi (?p - ?q + 1)"
    by (simp add: power_int_diff[symmetric] algebra_simps)
  finally have upper: "x < 2 powi (?p - ?q + 1)" .
  \<comment> \<open>lower: 2 powi (p - q - 1) < x\<close>
  have "2 powi (?p - 1) \<le> (of_int a :: rat)" by (rule al)
  also have "\<dots> = x * of_int b" using x bpos by simp
  also have "\<dots> < x * 2 powi ?q"
    using bu assms by (intro mult_strict_left_mono) auto
  finally have "2 powi (?p - 1) / 2 powi ?q < x"
    by (simp add: pos_divide_less_eq)
  moreover have "(2::rat) powi (?p - 1) / 2 powi ?q = 2 powi (?p - ?q - 1)"
    by (simp add: power_int_diff[symmetric] algebra_simps)
  ultimately have lower: "2 powi (?p - ?q - 1) < x" by simp
  show ?thesis
  proof (cases "2 powi (?p - ?q) \<le> x")
    case True
    then have "binade x = ?p - ?q" by (simp add: binade_def q)
    then show ?thesis using True upper by simp
  next
    case False
    then have "binade x = ?p - ?q - 1" by (simp add: binade_def q)
    then show ?thesis using False lower by simp
  qed
qed

lemma binade_mono:
  assumes "0 < x" and "x \<le> y"
  shows "binade x \<le> binade y"
proof (rule ccontr)
  assume "\<not> binade x \<le> binade y"
  then have "binade y + 1 \<le> binade x" by simp
  then have "(2::rat) powi (binade y + 1) \<le> 2 powi (binade x)"
    by (intro power_int_increasing) auto
  moreover have "y < 2 powi (binade y + 1)" using binade_bounds[of y] assms by simp
  moreover have "2 powi (binade x) \<le> x" using binade_bounds[OF assms(1)] by simp
  ultimately show False using assms(2) by linarith
qed

lemma roundTiesToEven_bounds: "\<lfloor>y\<rfloor> \<le> roundTiesToEven y \<and> roundTiesToEven y \<le> \<lfloor>y\<rfloor> + 1"
  by (simp add: roundTiesToEven_def Let_def)

lemma roundTiesToEven_of_int [simp]: "roundTiesToEven (of_int n) = n"
  by (simp add: roundTiesToEven_def Let_def)

lemma roundTiesToEven_mono:
  assumes "x \<le> y"
  shows "roundTiesToEven x \<le> roundTiesToEven y"
proof (cases "\<lfloor>x\<rfloor> = \<lfloor>y\<rfloor>")
  case True
  have "x - of_int \<lfloor>x\<rfloor> \<le> y - of_int \<lfloor>y\<rfloor>" using assms True by simp
  then show ?thesis
    using True by (auto simp: roundTiesToEven_def Let_def)
next
  case False
  then have "\<lfloor>x\<rfloor> < \<lfloor>y\<rfloor>" using floor_mono[OF assms] by linarith
  then have "\<lfloor>x\<rfloor> + 1 \<le> \<lfloor>y\<rfloor>" by simp
  then show ?thesis
    using roundTiesToEven_bounds[of x] roundTiesToEven_bounds[of y] by linarith
qed

lemma nearest53_bounds:
  assumes "0 < x"
  shows "2 powi (binade x) \<le> nearest53 x \<and> nearest53 x \<le> 2 powi (binade x + 1)"
proof -
  let ?e = "binade x"
  let ?q = "(2::rat) powi (?e - 52)"
  have q: "0 < ?q" by simp
  have n: "nearest53 x = of_int (roundTiesToEven (x / ?q)) * ?q"
    using assms by (simp add: nearest53_def Let_def)
  have lo: "of_int (2 ^ 52) \<le> x / ?q"
  proof -
    have "(2::rat) powi ?e = 2 powi 52 * ?q"
      by (subst power_int_add[symmetric]) simp_all
    then have "2 ^ 52 * ?q \<le> x" using binade_bounds[OF assms] by simp
    then show ?thesis using q by (simp add: pos_le_divide_eq)
  qed
  have hi: "x / ?q \<le> of_int (2 ^ 53)"
  proof -
    have "(2::rat) powi (?e + 1) = 2 powi 53 * ?q"
      by (subst power_int_add[symmetric]) (simp_all add: add.commute)
    then have "x \<le> 2 ^ 53 * ?q" using binade_bounds[OF assms] by simp
    then show ?thesis using q by (simp add: pos_divide_le_eq)
  qed
  have "roundTiesToEven (of_int (2 ^ 52)) \<le> roundTiesToEven (x / ?q)"
    using lo by (rule roundTiesToEven_mono)
  then have l2: "(2::int) ^ 52 \<le> roundTiesToEven (x / ?q)"
    by (simp only: roundTiesToEven_of_int)
  have "roundTiesToEven (x / ?q) \<le> roundTiesToEven (of_int (2 ^ 53))"
    using hi by (rule roundTiesToEven_mono)
  then have h2: "roundTiesToEven (x / ?q) \<le> (2::int) ^ 53"
    by (simp only: roundTiesToEven_of_int)
  have "(2::rat) powi ?e = 2 powi 52 * ?q"
    by (subst power_int_add[symmetric]) simp_all
  then have "(2::rat) powi ?e = of_int (2 ^ 52) * ?q" by simp
  also have "\<dots> \<le> of_int (roundTiesToEven (x / ?q)) * ?q"
  proof (intro mult_right_mono)
    show "(of_int (2 ^ 52) :: rat) \<le> of_int (roundTiesToEven (x / ?q))"
      using l2 by (simp only: of_int_le_iff)
    show "0 \<le> ?q" using q by simp
  qed
  finally have a: "2 powi ?e \<le> nearest53 x" by (simp only: n)
  have "of_int (roundTiesToEven (x / ?q)) * ?q \<le> of_int (2 ^ 53) * ?q"
  proof (intro mult_right_mono)
    show "(of_int (roundTiesToEven (x / ?q)) :: rat) \<le> of_int (2 ^ 53)"
      using h2 by (simp only: of_int_le_iff)
    show "0 \<le> ?q" using q by simp
  qed
  also have "\<dots> = (2::rat) powi (?e + 1)"
  proof -
    have "(2::rat) powi (?e + 1) = 2 powi 53 * ?q"
      by (subst power_int_add[symmetric]) (simp_all add: add.commute)
    then show ?thesis by simp
  qed
  finally have b: "nearest53 x \<le> 2 powi (?e + 1)" by (simp only: n)
  show ?thesis using a b by simp
qed

lemma nearest53_nonneg: "0 \<le> x \<Longrightarrow> 0 \<le> nearest53 x"
proof (cases "x = 0")
  case True
  then show ?thesis by (simp add: nearest53_def)
next
  case False
  assume "0 \<le> x"
  then have "0 < x" using False by simp
  from nearest53_bounds[OF this] have "2 powi (binade x) \<le> nearest53 x" by simp
  moreover have "(0::rat) < 2 powi (binade x)" by simp
  ultimately show ?thesis by linarith
qed

lemma nearest53_mono:
  assumes "0 \<le> x" and "x \<le> y"
  shows "nearest53 x \<le> nearest53 y"
proof (cases "x = 0")
  case True
  then show ?thesis using nearest53_nonneg[of y] assms by (simp add: nearest53_def)
next
  case False
  then have x: "0 < x" using assms(1) by simp
  then have y: "0 < y" using assms(2) by simp
  show ?thesis
  proof (cases "binade x = binade y")
    case True
    let ?q = "(2::rat) powi (binade y - 52)"
    have "x / ?q \<le> y / ?q" using assms(2) by (simp add: divide_right_mono)
    then have "roundTiesToEven (x / ?q) \<le> roundTiesToEven (y / ?q)" by (rule roundTiesToEven_mono)
    then have "(of_int (roundTiesToEven (x / ?q)) :: rat) * ?q \<le> of_int (roundTiesToEven (y / ?q)) * ?q"
      by (intro mult_right_mono) simp_all
    then show ?thesis using x y True by (simp add: nearest53_def Let_def)
  next
    case False
    then have "binade x + 1 \<le> binade y" using binade_mono[OF x assms(2)] by simp
    then have "(2::rat) powi (binade x + 1) \<le> 2 powi (binade y)"
      by (intro power_int_increasing) auto
    then show ?thesis using nearest53_bounds[OF x] nearest53_bounds[OF y] by linarith
  qed
qed

lemma double_round_nonneg_eq: "0 \<le> x \<Longrightarrow> double_round x = nearest53 x"
  by (cases "x = 0") (simp_all add: double_round_def nearest53_def)

lemma double_round_mono: "0 \<le> x \<Longrightarrow> x \<le> y \<Longrightarrow> double_round x \<le> double_round y"
  using nearest53_mono by (simp add: double_round_nonneg_eq)

lemma double_round_nonneg: "0 \<le> x \<Longrightarrow> 0 \<le> double_round x"
  using nearest53_nonneg by (simp add: double_round_nonneg_eq)

lemma double_round_0 [simp]: "double_round 0 = 0"
  by (simp add: double_round_def)

lemma double_round_1: "double_round 1 = 1"
  by code_simp

lemma double_round_100: "double_round 100 = 100"
  by code_simp

lemma Math_round_mono: "x \<le> y \<Longrightarrow> Math_round x \<le> Math_round y"
  by (simp add: Math_round_def floor_mono)

text \<open>Rounding to a double moves a non-negative number by at most its \<open>2\<^sup>-\<^sup>5\<^sup>3\<close>-th part.\<close>

lemma roundTiesToEven_error: "\<bar>of_int (roundTiesToEven y) - y\<bar> \<le> 1 / 2"
proof -
  have "of_int \<lfloor>y\<rfloor> \<le> y" "y < of_int \<lfloor>y\<rfloor> + 1" by linarith+
  then show ?thesis
    by (auto simp: roundTiesToEven_def Let_def abs_le_iff)
qed

lemma nearest53_error:
  assumes "0 \<le> x"
  shows "\<bar>nearest53 x - x\<bar> \<le> x / 2 ^ 53"
proof (cases "x = 0")
  case True
  then show ?thesis by (simp add: nearest53_def)
next
  case False
  then have x: "0 < x" using assms by simp
  let ?e = "binade x"
  let ?q = "(2::rat) powi (?e - 52)"
  have q: "0 < ?q" by simp
  have n: "nearest53 x = of_int (roundTiesToEven (x / ?q)) * ?q"
    using x by (simp add: nearest53_def Let_def)
  have "\<bar>nearest53 x - x\<bar> = \<bar>of_int (roundTiesToEven (x / ?q)) - x / ?q\<bar> * ?q"
  proof -
    have "nearest53 x - x = (of_int (roundTiesToEven (x / ?q)) - x / ?q) * ?q"
      using q by (simp add: n algebra_simps)
    then show ?thesis using q by (simp add: abs_mult)
  qed
  also have "\<dots> \<le> 1 / 2 * ?q"
    using roundTiesToEven_error[of "x / ?q"] q by (intro mult_right_mono) simp_all
  also have "1 / 2 * ?q = 2 powi ?e / 2 ^ 53"
  proof -
    have "(2::rat) powi ?e = 2 powi 52 * ?q"
      by (subst power_int_add[symmetric]) simp_all
    then show ?thesis by simp
  qed
  also have "\<dots> \<le> x / 2 ^ 53"
    using binade_bounds[OF x] by (simp add: divide_right_mono)
  finally show ?thesis .
qed

lemma double_round_error: "0 \<le> x \<Longrightarrow> \<bar>double_round x - x\<bar> \<le> x / 2 ^ 53"
  using nearest53_error by (simp add: double_round_nonneg_eq)

section \<open>Properties of the anchor hunter\<close>

lemma coverLoop_eq:
  "coverLoop w titles toc matched unmatched
     = (matched @ filter (isMatched w titles) toc,
        unmatched @ filter (\<lambda>t. \<not> isMatched w titles t) toc)"
  by (induction toc arbitrary: matched unmatched) (auto simp: isMatched_def)

lemma scorePlaylistCoverage_eq:
  "scorePlaylistCoverage w vids toc
     = \<lparr>coverageScore = (if toc = [] then None else Some (jsPercent (matchedCount w vids toc) (length toc))),
        matchedTopics = filter (isMatched w (map pv_title vids)) toc,
        unmatchedTopics = filter (\<lambda>t. \<not> isMatched w (map pv_title vids) t) toc\<rparr>"
  by (simp add: scorePlaylistCoverage_def coverLoop_eq fdiv_def jsPercent_def matchedCount_def)

lemma jsPercent_mono:
  assumes "m \<le> m'"
  shows "jsPercent m n \<le> jsPercent m' n"
proof -
  have q: "(of_nat m :: rat) / of_nat n \<le> of_nat m' / of_nat n"
    using assms by (simp add: divide_right_mono)
  have q0: "(0::rat) \<le> of_nat m / of_nat n" by simp
  have d: "double_round (of_nat m / of_nat n) \<le> double_round (of_nat m' / of_nat n)"
    using double_round_mono[OF q0 q] .
  have d0: "0 \<le> double_round (of_nat m / of_nat n)" using double_round_nonneg[OF q0] .
  have "double_round (of_nat m / of_nat n) * 100 \<le> double_round (of_nat m' / of_nat n) * 100"
    using d by simp
  moreover have "0 \<le> double_round (of_nat m / of_nat n) * 100" using d0 by simp
  ultimately have "fmul (double_round (of_nat m / of_nat n)) 100
                     \<le> fmul (double_round (of_nat m' / of_nat n)) 100"
    unfolding fmul_def by (rule double_round_mono[rotated])
  then show ?thesis unfolding jsPercent_def by (rule Math_round_mono)
qed

lemma Math_round_of_int [simp]: "Math_round (of_int k) = k"
  by (simp add: Math_round_def floor_eq_iff)

lemma jsPercent_0: "jsPercent 0 n = 0"
  using Math_round_of_int[of 0] by (simp add: jsPercent_def fmul_def)

lemma jsPercent_all: "0 < n \<Longrightarrow> jsPercent n n = 100"
  using Math_round_of_int[of 100]
  by (simp add: jsPercent_def fmul_def double_round_1 double_round_100)

lemma matchedCount_le: "matchedCount w vids toc \<le> length toc"
  by (simp add: matchedCount_def)

lemma matchedCount_mono:
  assumes "\<forall>t \<in> set toc. isMatched w (map pv_title vids) t \<longrightarrow> isMatched w (map pv_title vids') t"
  shows "matchedCount w vids toc \<le> matchedCount w vids' toc"
  using assms unfolding matchedCount_def
proof (induction toc)
  case Nil
  then show ?case by simp
next
  case (Cons t toc)
  then show ?case by auto
qed

text \<open>The double product is within \<open>2\<^sup>-\<^sup>4\<^sup>4\<close> of the exact percentage.\<close>

lemma percent_error:
  assumes "m \<le> n" and "0 < n"
  shows "\<bar>fmul (double_round (of_nat m / of_nat n)) 100 - 100 * of_nat m / of_nat n\<bar> \<le> 1 / 2 ^ 44"
proof -
  let ?a = "(of_nat m :: rat) / of_nat n"
  let ?a' = "double_round ?a"
  let ?b = "?a' * 100"
  let ?y = "double_round ?b"
  have a0: "0 \<le> ?a" by simp
  have a1: "?a \<le> 1" using assms by simp
  have ea: "\<bar>?a' - ?a\<bar> \<le> 1 / 2 ^ 53"
  proof -
    have "\<bar>?a' - ?a\<bar> \<le> ?a / 2 ^ 53" using double_round_error[OF a0] .
    also have "\<dots> \<le> 1 / 2 ^ 53" using a1 by (simp add: divide_right_mono)
    finally show ?thesis .
  qed
  have a'0: "0 \<le> ?a'" using double_round_nonneg[OF a0] .
  have a'2: "?a' \<le> 2"
  proof -
    have "(1::rat) / 2 ^ 53 \<le> 1" by simp
    then show ?thesis using ea a1 by linarith
  qed
  have b0: "0 \<le> ?b" using a'0 by simp
  have b2: "?b \<le> 200" using a'2 by simp
  have eb: "\<bar>?y - ?b\<bar> \<le> 200 / 2 ^ 53"
  proof -
    have "\<bar>?y - ?b\<bar> \<le> ?b / 2 ^ 53" using double_round_error[OF b0] .
    also have "\<dots> \<le> 200 / 2 ^ 53" using b2 by (simp add: divide_right_mono)
    finally show ?thesis .
  qed
  have "\<bar>?y - 100 * ?a\<bar> \<le> \<bar>?y - ?b\<bar> + \<bar>?b - 100 * ?a\<bar>" by simp
  also have "\<bar>?b - 100 * ?a\<bar> = 100 * \<bar>?a' - ?a\<bar>" by (simp add: abs_if)
  also have "\<bar>?y - ?b\<bar> + 100 * \<bar>?a' - ?a\<bar> \<le> 200 / 2 ^ 53 + 100 * (1 / 2 ^ 53)"
    using ea eb by (intro add_mono mult_left_mono) simp_all
  also have "\<dots> \<le> 1 / 2 ^ 44" by simp
  finally show ?thesis by (simp add: fmul_def)
qed

text \<open>The score is an integer nearest to the exact percentage.\<close>

lemma jsPercent_nearest:
  assumes "m \<le> n" and "0 < n" and "n < 2 ^ 32"
  shows "\<bar>of_int (jsPercent m n) - 100 * of_nat m / of_nat n\<bar> \<le> (1 / 2 :: rat)"
proof -
  let ?p = "100 * (of_nat m :: rat) / of_nat n"
  let ?y = "fmul (double_round (of_nat m / of_nat n)) 100"
  let ?s = "jsPercent m n"
  have s: "?s = \<lfloor>?y + 1 / 2\<rfloor>" by (simp add: jsPercent_def Math_round_def)
  have lo: "of_int ?s - 1 / 2 \<le> ?y" and hi: "?y < of_int ?s + 1 / 2"
    unfolding s by linarith+
  have err: "\<bar>?y - ?p\<bar> \<le> 1 / 2 ^ 44" using percent_error[OF assms(1,2)] .
  have npos: "(0::rat) < of_nat n" using assms(2) by simp
  have nlt: "(of_nat n :: rat) < 2 ^ 32"
  proof -
    have "(of_nat n :: rat) < of_nat (2 ^ 32)" using assms(3) by (simp only: of_nat_less_iff)
    then show ?thesis by simp
  qed
  have gap: "1 / 2 ^ 44 < 1 / (2 * (of_nat n :: rat))"
  proof -
    have "2 * (of_nat n :: rat) < 2 ^ 44" using nlt by simp
    then show ?thesis using npos by (simp add: frac_less2)
  qed
  have up: "?p \<le> of_int ?s + 1 / 2"
  proof (rule ccontr)
    assume "\<not> ?p \<le> of_int ?s + 1 / 2"
    then have gt: "0 < ?p - (of_int ?s + 1 / 2)" by simp
    have eq: "(?p - (of_int ?s + 1 / 2)) * (2 * of_nat n) = of_int (200 * int m - (2 * ?s + 1) * int n)"
      using npos by (simp add: field_simps)
    have "0 < (?p - (of_int ?s + 1 / 2)) * (2 * of_nat n)"
      using gt npos by (intro mult_pos_pos) simp_all
    then have "(0::rat) < of_int (200 * int m - (2 * ?s + 1) * int n)" by (simp only: eq)
    then have "0 < 200 * int m - (2 * ?s + 1) * int n" by (simp only: of_int_0_less_iff)
    then have "1 \<le> 200 * int m - (2 * ?s + 1) * int n" by simp
    then have "(1::rat) \<le> of_int (200 * int m - (2 * ?s + 1) * int n)" by (simp only: of_int_1_le_iff)
    then have "1 \<le> (?p - (of_int ?s + 1 / 2)) * (2 * of_nat n)" by (simp only: eq)
    then have "1 / (2 * of_nat n) \<le> ?p - (of_int ?s + 1 / 2)"
      using npos by (simp only: pos_divide_le_eq)
    moreover have "?p < of_int ?s + 1 / 2 + 1 / 2 ^ 44" using err hi by linarith
    ultimately show False using gap by linarith
  qed
  have dn: "of_int ?s - 1 / 2 \<le> ?p"
  proof (rule ccontr)
    assume "\<not> of_int ?s - 1 / 2 \<le> ?p"
    then have gt: "0 < (of_int ?s - 1 / 2) - ?p" by simp
    have eq: "((of_int ?s - 1 / 2) - ?p) * (2 * of_nat n) = of_int ((2 * ?s - 1) * int n - 200 * int m)"
      using npos by (simp add: field_simps)
    have "0 < ((of_int ?s - 1 / 2) - ?p) * (2 * of_nat n)"
      using gt npos by (intro mult_pos_pos) simp_all
    then have "(0::rat) < of_int ((2 * ?s - 1) * int n - 200 * int m)" by (simp only: eq)
    then have "0 < (2 * ?s - 1) * int n - 200 * int m" by (simp only: of_int_0_less_iff)
    then have "1 \<le> (2 * ?s - 1) * int n - 200 * int m" by simp
    then have "(1::rat) \<le> of_int ((2 * ?s - 1) * int n - 200 * int m)" by (simp only: of_int_1_le_iff)
    then have "1 \<le> ((of_int ?s - 1 / 2) - ?p) * (2 * of_nat n)" by (simp only: eq)
    then have "1 / (2 * of_nat n) \<le> (of_int ?s - 1 / 2) - ?p"
      using npos by (simp only: pos_divide_le_eq)
    moreover have "of_int ?s - 1 / 2 - 1 / 2 ^ 44 \<le> ?p" using err lo by linarith
    ultimately show False using gap by linarith
  qed
  show ?thesis using up dn by linarith
qed

text \<open>Hence it is the percentage rounded half up, or one less at an exact tie.\<close>

lemma jsPercent_round:
  assumes "m \<le> n" and "0 < n" and "n < 2 ^ 32"
  shows "jsPercent m n = Math_round (100 * of_nat m / of_nat n)
       \<or> (jsPercent m n = Math_round (100 * of_nat m / of_nat n) - 1
          \<and> 100 * (of_nat m :: rat) / of_nat n = of_int (jsPercent m n) + 1 / 2)"
proof -
  let ?p = "100 * (of_nat m :: rat) / of_nat n"
  let ?s = "jsPercent m n"
  from jsPercent_nearest[OF assms] have b: "of_int ?s - 1 / 2 \<le> ?p" "?p \<le> of_int ?s + 1 / 2"
    by linarith+
  show ?thesis
  proof (cases "?p = of_int ?s + 1 / 2")
    case True
    then have "?p + 1 / 2 = of_int (?s + 1)" by simp
    then have "Math_round ?p = ?s + 1" unfolding Math_round_def by (simp only: floor_of_int)
    then show ?thesis using True by simp
  next
    case False
    then have "?p < of_int ?s + 1 / 2" using b by simp
    then have "of_int ?s \<le> ?p + 1 / 2" "?p + 1 / 2 < of_int ?s + 1" using b by simp_all
    then have "\<lfloor>?p + 1 / 2\<rfloor> = ?s" by (simp add: floor_eq_iff)
    then show ?thesis by (simp add: Math_round_def)
  qed
qed

lemma tenth_below_threshold: "(1 / 10 :: rat) < MATCH_THRESHOLD"
  by code_simp

lemma bestMatch_tenth: "bestMatch [(0, Some (1 / 10))] = Some (0, 1 / 10)"
  unfolding bestMatch_def using tenth_below_threshold by (simp del: divide_less_eq_numeral1)

text \<open>The example with forty topics, of which the first 23 match.\<close>

lemma filter_take_distinct:
  assumes "distinct xs"
  shows "filter (\<lambda>t. t \<in> set (take n xs)) xs = take n xs"
proof -
  have d: "set (take n xs) \<inter> set (drop n xs) = {}"
    using assms distinct_append[of "take n xs" "drop n xs"] by simp
  have "filter (\<lambda>t. t \<in> set (take n xs)) xs
          = filter (\<lambda>t. t \<in> set (take n xs)) (take n xs) @ filter (\<lambda>t. t \<in> set (take n xs)) (drop n xs)"
    by (simp only: filter_append[symmetric] append_take_drop_id)
  moreover have "filter (\<lambda>t. t \<in> set (take n xs)) (take n xs) = take n xs"
    by (simp add: filter_id_conv)
  moreover have "filter (\<lambda>t. t \<in> set (take n xs)) (drop n xs) = []"
    using d by (auto simp: filter_empty_conv)
  ultimately show ?thesis by simp
qed

lemma fortyTopics_distinct: "distinct fortyTopics"
proof -
  have "inj_on (\<lambda>k. ascii (''Unit '' @ replicate k CHR ''I'')) (set [1..<41])"
  proof (rule inj_onI)
    fix a b assume "ascii (''Unit '' @ replicate a CHR ''I'') = ascii (''Unit '' @ replicate b CHR ''I'')"
    then have "length (ascii (''Unit '' @ replicate a CHR ''I''))
                 = length (ascii (''Unit '' @ replicate b CHR ''I''))" by (rule arg_cong)
    then show "a = b" by (simp add: ascii_def)
  qed
  then show ?thesis by (simp add: fortyTopics_def distinct_map)
qed

lemma length_fortyTopics: "length fortyTopics = 40"
  by (simp add: fortyTopics_def)

lemma dsaItems_titles: "map pv_title dsaItems \<noteq> []"
  by (simp add: dsaItems_def dsaVideos_def)

lemma partialWorld_matched:
  "isMatched partialWorld (map pv_title dsaItems) topic \<longleftrightarrow> topic \<in> set (take 23 fortyTopics)"
proof (cases "topic \<in> set (take 23 fortyTopics)")
  case True
  have "fuse_search partialWorld (map pv_title dsaItems) topic = [(0, Some (1 / 10))]"
    using True dsaItems_titles by (simp add: fuse_search_def partialWorld_def)
  then show ?thesis using True by (simp only: isMatched_def bestMatch_tenth) simp
next
  case False
  have "fuse_search partialWorld (map pv_title dsaItems) topic = []"
    using False by (simp add: fuse_search_def partialWorld_def)
  then show ?thesis using False by (simp add: isMatched_def bestMatch_def)
qed

lemma partialWorld_count: "matchedCount partialWorld dsaItems fortyTopics = 23"
  unfolding matchedCount_def partialWorld_matched filter_take_distinct[OF fortyTopics_distinct]
  by (simp add: length_fortyTopics)

lemma jsPercent_23_40: "jsPercent 23 40 = 57"
  by code_simp

text \<open>
  C4, as stated, fails: with 23 of 40 topics matched the percentage is exactly 57.5, which
  rounds to 58 (half up and half to even alike), but the coverage score is 57. The source
  computes \<open>Math.round((23 / 40) * 100)\<close> in doubles: the quotient is the double below
  0.575, the product is the double 57.49999999999999, and \<open>Math.round\<close> gives 57.
\<close>

theorem coverage_23_of_40_counterexample:
  "fortyTopics \<noteq> [] \<and> length fortyTopics = 40
   \<and> matchedCount partialWorld dsaItems fortyTopics = 23
   \<and> coverageScore (scorePlaylistCoverage partialWorld dsaItems fortyTopics) = Some 57
   \<and> (100 * of_nat (matchedCount partialWorld dsaItems fortyTopics) / of_nat (length fortyTopics) :: rat)
       = 115 / 2
   \<and> Math_round (100 * of_nat (matchedCount partialWorld dsaItems fortyTopics)
                   / of_nat (length fortyTopics)) = 58
   \<and> roundTiesToEven (100 * of_nat (matchedCount partialWorld dsaItems fortyTopics)
                   / of_nat (length fortyTopics)) = 58"
proof -
  have ne: "fortyTopics \<noteq> []" using length_fortyTopics by auto
  have s: "coverageScore (scorePlaylistCoverage partialWorld dsaItems fortyTopics) = Some 57"
    using ne by (simp add: scorePlaylistCoverage_eq partialWorld_count length_fortyTopics jsPercent_23_40)
  have p: "(100 * of_nat (23::nat) / of_nat (40::nat) :: rat) = 115 / 2" by simp
  have r: "Math_round (115 / 2) = 58" by code_simp
  have e: "roundTiesToEven (115 / 2) = 58" by code_simp
  show ?thesis
    unfolding partialWorld_count length_fortyTopics p
    using ne s r e by (simp add: length_fortyTopics)
qed

text \<open>
  C4, amended. For a non-empty topic list the matched topics are those that the Matcher
  scores below the threshold against the item titles, in order, and the coverage score is
  \<open>Math.round((matchedCount / totalTopics) * 100)\<close> evaluated in double arithmetic. For a
  list of fewer than \<open>2\<^sup>3\<^sup>2\<close> topics (every JavaScript array) this score is an integer
  within one half of the exact percentage \<open>100 * matchedCount / totalTopics\<close>: it is the
  percentage rounded half up, except that at an exact tie \<open>k + 1/2\<close> it may be \<open>k\<close>
  instead of \<open>k + 1\<close>. The score lies between 0 and 100, is 0 when no topic matches and
  100 when all match, and does not decrease when the set of matched topics grows.
\<close>

theorem coverage_score:
  assumes "toc \<noteq> []"
  shows "matchedTopics (scorePlaylistCoverage w vids toc) = filter (isMatched w (map pv_title vids)) toc
       \<and> coverageScore (scorePlaylistCoverage w vids toc)
           = Some (jsPercent (matchedCount w vids toc) (length toc))
       \<and> jsPercent (matchedCount w vids toc) (length toc)
           = Math_round (fmul (double_round (of_nat (matchedCount w vids toc) / of_nat (length toc))) 100)
       \<and> (length toc < 2 ^ 32 \<longrightarrow>
            \<bar>of_int (jsPercent (matchedCount w vids toc) (length toc))
               - 100 * of_nat (matchedCount w vids toc) / of_nat (length toc)\<bar> \<le> (1 / 2 :: rat)
          \<and> (jsPercent (matchedCount w vids toc) (length toc)
                = Math_round (100 * of_nat (matchedCount w vids toc) / of_nat (length toc))
             \<or> jsPercent (matchedCount w vids toc) (length toc)
                  = Math_round (100 * of_nat (matchedCount w vids toc) / of_nat (length toc)) - 1
               \<and> 100 * (of_nat (matchedCount w vids toc) :: rat) / of_nat (length toc)
                  = of_int (jsPercent (matchedCount w vids toc) (length toc)) + 1 / 2))
       \<and> 0 \<le> jsPercent (matchedCount w vids toc) (length toc)
       \<and> jsPercent (matchedCount w vids toc) (length toc) \<le> 100
       \<and> (matchedCount w vids toc = 0 \<longrightarrow> coverageScore (scorePlaylistCoverage w vids toc) = Some 0)
       \<and> (matchedCount w vids toc = length toc \<longrightarrow>
            coverageScore (scorePlaylistCoverage w vids toc) = Some 100)
       \<and> ((\<forall>t \<in> set toc. isMatched w (map pv_title vids) t \<longrightarrow> isMatched w (map pv_title vids') t) \<longrightarrow>
            jsPercent (matchedCount w vids toc) (length toc)
              \<le> jsPercent (matchedCount w vids' toc) (length toc)
            \<and> coverageScore (scorePlaylistCoverage w vids' toc)
                = Some (jsPercent (matchedCount w vids' toc) (length toc)))"
proof -
  have n: "0 < length toc" using assms by simp
  have lo: "0 \<le> jsPercent (matchedCount w vids toc) (length toc)"
    using jsPercent_mono[of 0 "matchedCount w vids toc" "length toc"] by (simp add: jsPercent_0)
  have hi: "jsPercent (matchedCount w vids toc) (length toc) \<le> 100"
    using jsPercent_mono[OF matchedCount_le[of w vids toc], of "length toc"] jsPercent_all[OF n] by simp
  have mono: "(\<forall>t \<in> set toc. isMatched w (map pv_title vids) t \<longrightarrow> isMatched w (map pv_title vids') t) \<longrightarrow>
            jsPercent (matchedCount w vids toc) (length toc)
              \<le> jsPercent (matchedCount w vids' toc) (length toc)"
    using matchedCount_mono jsPercent_mono by blast
  have near: "length toc < 2 ^ 32 \<longrightarrow>
            \<bar>of_int (jsPercent (matchedCount w vids toc) (length toc))
               - 100 * of_nat (matchedCount w vids toc) / of_nat (length toc)\<bar> \<le> (1 / 2 :: rat)
          \<and> (jsPercent (matchedCount w vids toc) (length toc)
                = Math_round (100 * of_nat (matchedCount w vids toc) / of_nat (length toc))
             \<or> jsPercent (matchedCount w vids toc) (length toc)
                  = Math_round (100 * of_nat (matchedCount w vids toc) / of_nat (length toc)) - 1
               \<and> 100 * (of_nat (matchedCount w vids toc) :: rat) / of_nat (length toc)
                  = of_int (jsPercent (matchedCount w vids toc) (length toc)) + 1 / 2)"
    using jsPercent_nearest[OF matchedCount_le[of w vids toc] n]
          jsPercent_round[OF matchedCount_le[of w vids toc] n]
    by blast
  have rest: "matchedTopics (scorePlaylistCoverage w vids toc) = filter (isMatched w (map pv_title vids)) toc
       \<and> coverageScore (scorePlaylistCoverage w vids toc)
           = Some (jsPercent (matchedCount w vids toc) (length toc))
       \<and> jsPercent (matchedCount w vids toc) (length toc)
           = Math_round (fmul (double_round (of_nat (matchedCount w vids toc) / of_nat (length toc))) 100)
       \<and> (matchedCount w vids toc = 0 \<longrightarrow> coverageScore (scorePlaylistCoverage w vids toc) = Some 0)
       \<and> (matchedCount w vids toc = length toc \<longrightarrow>
            coverageScore (scorePlaylistCoverage w vids toc) = Some 100)
       \<and> coverageScore (scorePlaylistCoverage w vids' toc)
                = Some (jsPercent (matchedCount w vids' toc) (length toc))"
    using assms jsPercent_all[OF n]
    by (simp add: scorePlaylistCoverage_eq jsPercent_0) (simp add: jsPercent_def)
  show ?thesis using lo hi mono near rest by blast
qed

lemma huntInv_skip: "huntInv st \<Longrightarrow> huntInv (st\<lparr>performed := n\<rparr>)"
  by (simp add: huntInv_def split: option.splits)

lemma huntInv_step:
  assumes inv: "huntInv st"
  shows "huntInv
     (let st2 = st\<lparr>scoredLog := scoredLog st @ [s]\<rparr>
      in case scoreOf s of
           None \<Rightarrow> st2
         | Some c \<Rightarrow> if c > bestScore st2
                     then st2\<lparr>bestScore := c, bestAnchor := Some (anchorOf s c)\<rparr>
                     else st2)"
proof (cases "scoreOf s")
  case None
  have "huntInv (st\<lparr>scoredLog := scoredLog st @ [s]\<rparr>)"
    using inv None
    by (auto simp: huntInv_def nth_append less_Suc_eq split: option.splits)
  then show ?thesis using None by (simp add: Let_def)
next
  case (Some c)
  show ?thesis
  proof (cases "c > bestScore st")
    case True
    let ?st = "st\<lparr>scoredLog := scoredLog st @ [s], bestScore := c, bestAnchor := Some (anchorOf s c)\<rparr>"
    have 1: "0 \<le> bestScore ?st" using inv True by (simp add: huntInv_def)
    have 2: "\<forall>t \<in> set (scoredLog ?st). \<forall>d. scoreOf t = Some d \<longrightarrow> d \<le> bestScore ?st"
      using inv True Some by (fastforce simp: huntInv_def)
    have 3: "0 < bestScore ?st" using inv True by (simp add: huntInv_def)
    have 4: "\<exists>i < length (scoredLog ?st).
                  anchorOf s c = anchorOf (scoredLog ?st ! i) (bestScore ?st)
                \<and> scoreOf (scoredLog ?st ! i) = Some (bestScore ?st)
                \<and> (\<forall>j < i. \<forall>d. scoreOf (scoredLog ?st ! j) = Some d \<longrightarrow> d < bestScore ?st)"
    proof (intro exI[of _ "length (scoredLog st)"] conjI allI impI)
      show "length (scoredLog st) < length (scoredLog ?st)" by simp
      show "anchorOf s c = anchorOf (scoredLog ?st ! length (scoredLog st)) (bestScore ?st)" by simp
      show "scoreOf (scoredLog ?st ! length (scoredLog st)) = Some (bestScore ?st)" using Some by simp
      fix j d assume j: "j < length (scoredLog st)" and d: "scoreOf (scoredLog ?st ! j) = Some d"
      then have "scoreOf (scoredLog st ! j) = Some d" by (simp add: nth_append)
      then have "d \<le> bestScore st" using inv j by (auto simp: huntInv_def)
      then show "d < bestScore ?st" using True by simp
    qed
    have "huntInv ?st" using 1 2 3 4 by (simp add: huntInv_def)
    then show ?thesis using Some True by (simp add: Let_def)
  next
    case False
    have "huntInv (st\<lparr>scoredLog := scoredLog st @ [s]\<rparr>)"
      using inv Some False
      by (auto simp: huntInv_def nth_append less_Suc_eq split: option.splits)
    then show ?thesis using Some False by (simp add: Let_def)
  qed
qed

lemma huntLoop_inv:
  "huntInv st \<Longrightarrow> huntInv (fst (huntLoop w toc ps st tr))"
proof (induction ps arbitrary: st tr)
  case Nil
  then show ?case by simp
next
  case (Cons playlist rest)
  obtain vids tr' where g: "getPlaylistVideos w (pr_listId playlist) tr = (vids, tr')"
    by (cases "getPlaylistVideos w (pr_listId playlist) tr")
  let ?st1 = "st\<lparr>performed := performed st + 1\<rparr>"
  have i1: "huntInv ?st1" using Cons.prems by (rule huntInv_skip)
  show ?case
  proof (cases "length vids < 3")
    case True
    then show ?thesis using Cons.IH[OF i1] g by simp
  next
    case False
    let ?s = "\<lparr>sc_playlist = playlist, sc_videos = vids, sc_score = scorePlaylistCoverage w vids toc\<rparr>"
    let ?st3 = "(let st2 = ?st1\<lparr>scoredLog := scoredLog ?st1 @ [?s]\<rparr>
      in case scoreOf ?s of
           None \<Rightarrow> st2
         | Some c \<Rightarrow> if c > bestScore st2
                     then st2\<lparr>bestScore := c, bestAnchor := Some (anchorOf ?s c)\<rparr>
                     else st2)"
    have i3: "huntInv ?st3" using huntInv_step[OF i1] .
    have step: "huntLoop w toc (playlist # rest) st tr
                  = (if bestScore ?st3 \<ge> 80 then (?st3, tr') else huntLoop w toc rest ?st3 tr')"
      using False g by (auto simp: Let_def scoreOf_def anchorOf_def split: option.splits)
    show ?thesis
      using i3 Cons.IH[OF i3] by (simp only: step split: if_splits) auto
  qed
qed


lemma huntLoop_log:
  assumes "\<forall>s \<in> set (scoredLog st). P s"
    and "\<forall>p \<in> set ps. \<forall>vids. 3 \<le> length vids \<longrightarrow>
           P \<lparr>sc_playlist = p, sc_videos = vids, sc_score = scorePlaylistCoverage w vids toc\<rparr>"
  shows "\<forall>s \<in> set (scoredLog (fst (huntLoop w toc ps st tr))). P s"
  using assms
proof (induction ps arbitrary: st tr)
  case Nil
  then show ?case by simp
next
  case (Cons playlist rest)
  obtain vids tr' where g: "getPlaylistVideos w (pr_listId playlist) tr = (vids, tr')"
    by (cases "getPlaylistVideos w (pr_listId playlist) tr")
  have rest: "\<forall>p \<in> set rest. \<forall>vids. 3 \<le> length vids \<longrightarrow>
           P \<lparr>sc_playlist = p, sc_videos = vids, sc_score = scorePlaylistCoverage w vids toc\<rparr>"
    using Cons.prems(2) by simp
  let ?st1 = "st\<lparr>performed := performed st + 1\<rparr>"
  show ?case
  proof (cases "length vids < 3")
    case True
    have "\<forall>s \<in> set (scoredLog ?st1). P s" using Cons.prems(1) by simp
    from Cons.IH[OF this rest] show ?thesis using True g by simp
  next
    case False
    let ?s = "\<lparr>sc_playlist = playlist, sc_videos = vids, sc_score = scorePlaylistCoverage w vids toc\<rparr>"
    let ?st3 = "(let st2 = ?st1\<lparr>scoredLog := scoredLog ?st1 @ [?s]\<rparr>
      in case scoreOf ?s of
           None \<Rightarrow> st2
         | Some c \<Rightarrow> if c > bestScore st2
                     then st2\<lparr>bestScore := c, bestAnchor := Some (anchorOf ?s c)\<rparr>
                     else st2)"
    have "P ?s" using Cons.prems(2) False by simp
    then have l3: "\<forall>s \<in> set (scoredLog ?st3). P s"
      using Cons.prems(1) by (auto simp: Let_def split: option.splits)
    have step: "huntLoop w toc (playlist # rest) st tr
                  = (if bestScore ?st3 \<ge> 80 then (?st3, tr') else huntLoop w toc rest ?st3 tr')"
      using False g by (auto simp: Let_def scoreOf_def anchorOf_def split: option.splits)
    show ?thesis
      using l3 Cons.IH[OF l3 rest] by (simp only: step split: if_splits) auto
  qed
qed

lemma length_channelNames:
  "length (map the (filter truthy (map (\<lambda>p. authorName (pr_author p)) (take 3 playlists)))) \<le> 3"
proof -
  have "length (filter truthy (map (\<lambda>p. authorName (pr_author p)) (take 3 playlists)))
          \<le> length (map (\<lambda>p. authorName (pr_author p)) (take 3 playlists))"
    by (rule length_filter_le)
  then show ?thesis by simp
qed

lemma map_snd_enumerate_fun: "map (\<lambda>iv. g (snd iv)) (enumerate n xs) = map g xs"
  by (induction xs arbitrary: n) simp_all

text \<open>The fields of the anchor that the loop builds from a scored playlist.\<close>

lemma anchorOf_fields:
  assumes "sc_score s = scorePlaylistCoverage w (sc_videos s) toc"
  shows "ap_playlistId (anchorOf s c) = pr_listId (sc_playlist s)
              \<and> ap_playlistTitle (anchorOf s c) = pr_title (sc_playlist s)
              \<and> ap_channelName (anchorOf s c)
                  = (case authorName (pr_author (sc_playlist s)) of
                       None \<Rightarrow> ascii ''Unknown''
                     | Some n \<Rightarrow> if n = [] then ascii ''Unknown'' else n)
              \<and> ap_videoCount (anchorOf s c) = length (sc_videos s)
              \<and> map av_videoId (ap_videos (anchorOf s c)) = map pv_videoId (sc_videos s)
              \<and> map av_title (ap_videos (anchorOf s c)) = map pv_title (sc_videos s)
              \<and> map av_durationSeconds (ap_videos (anchorOf s c))
                  = map (\<lambda>v. case pv_duration v of None \<Rightarrow> 0 | Some d \<Rightarrow> d_seconds d)
                      (sc_videos s)
              \<and> map av_durationDisplay (ap_videos (anchorOf s c))
                  = map (\<lambda>v. case pv_duration v of
                                None \<Rightarrow> ascii ''0:00''
                              | Some d \<Rightarrow> if d_timestamp d = [] then ascii ''0:00'' else d_timestamp d)
                      (sc_videos s)
              \<and> map av_position (ap_videos (anchorOf s c)) = [0..<length (sc_videos s)]
              \<and> ap_coverageScore (anchorOf s c) = c
              \<and> ap_matchedTopics (anchorOf s c)
                  = filter (isMatched w (map pv_title (sc_videos s))) toc
              \<and> ap_unmatchedTopics (anchorOf s c)
                  = filter (\<lambda>t. \<not> isMatched w (map pv_title (sc_videos s)) t) toc"
proof -
  note secs = map_snd_enumerate_fun[of "\<lambda>v. case pv_duration v of None \<Rightarrow> 0 | Some d \<Rightarrow> d_seconds d"
                0 "sc_videos s"]
  note disp = map_snd_enumerate_fun[of "\<lambda>v. case pv_duration v of
                                None \<Rightarrow> ascii ''0:00''
                              | Some d \<Rightarrow> if d_timestamp d = [] then ascii ''0:00'' else d_timestamp d"
                0 "sc_videos s"]
  show ?thesis
    using assms secs disp
    by (simp add: anchorOf_def mkAnchor_def toAnchorVideo_def scorePlaylistCoverage_eq
          map_snd_enumerate_fun truthy_def comp_def split: option.splits)
qed

text \<open>
  C5. When the playlist search discovers at least one playlist: \<open>found\<close> is true exactly
  when some scored playlist has a coverage score of at least 50, and then the anchor is
  built from the best-scoring scored playlist (the first one with the highest score): it
  has the id and title of that playlist, the name of its author (\<open>Unknown\<close> when there is
  none), its number of videos, its videos in order with their ids, titles, durations
  (0 and \<open>0:00\<close> when missing) and positions from 0, its coverage score and its matched and
  unmatched topics. Otherwise there is no anchor and the fallback hints are at most three
  channel names, those of the first three playlists. Every scored playlist is one of the
  first five, has at least three videos and carries the score of \<open>scorePlaylistCoverage\<close>.
\<close>

theorem huntForAnchor_threshold:
  assumes "ytSearch w (length tr) (trim (subject @ ascii '' full course playlist '' @ suffix))
             = Resolved (Some searchResult)"
    and "sr_playlists searchResult = Some playlists"
    and "playlists \<noteq> []"
    and "huntForAnchor w subject toc suffix tr = ((r, evaluated), tr')"
  shows "(found r \<longleftrightarrow> (\<exists>s \<in> set evaluated. \<exists>c. scoreOf s = Some c \<and> 50 \<le> c))
       \<and> (found r \<longrightarrow>
            (\<exists>i < length evaluated. \<exists>c a.
                anchor r = Some a \<and> a = anchorOf (evaluated ! i) c
              \<and> scoreOf (evaluated ! i) = Some c \<and> 50 \<le> c
              \<and> (\<forall>t \<in> set evaluated. \<forall>d. scoreOf t = Some d \<longrightarrow> d \<le> c)
              \<and> (\<forall>j < i. \<forall>d. scoreOf (evaluated ! j) = Some d \<longrightarrow> d < c)
              \<and> ap_playlistId a = pr_listId (sc_playlist (evaluated ! i))
              \<and> ap_playlistTitle a = pr_title (sc_playlist (evaluated ! i))
              \<and> ap_channelName a
                  = (case authorName (pr_author (sc_playlist (evaluated ! i))) of
                       None \<Rightarrow> ascii ''Unknown''
                     | Some n \<Rightarrow> if n = [] then ascii ''Unknown'' else n)
              \<and> ap_videoCount a = length (sc_videos (evaluated ! i))
              \<and> map av_videoId (ap_videos a) = map pv_videoId (sc_videos (evaluated ! i))
              \<and> map av_title (ap_videos a) = map pv_title (sc_videos (evaluated ! i))
              \<and> map av_durationSeconds (ap_videos a)
                  = map (\<lambda>v. case pv_duration v of None \<Rightarrow> 0 | Some d \<Rightarrow> d_seconds d)
                      (sc_videos (evaluated ! i))
              \<and> map av_durationDisplay (ap_videos a)
                  = map (\<lambda>v. case pv_duration v of
                                None \<Rightarrow> ascii ''0:00''
                              | Some d \<Rightarrow> if d_timestamp d = [] then ascii ''0:00'' else d_timestamp d)
                      (sc_videos (evaluated ! i))
              \<and> map av_position (ap_videos a) = [0..<length (sc_videos (evaluated ! i))]
              \<and> ap_coverageScore a = c
              \<and> ap_matchedTopics a
                  = filter (isMatched w (map pv_title (sc_videos (evaluated ! i)))) toc
              \<and> ap_unmatchedTopics a
                  = filter (\<lambda>t. \<not> isMatched w (map pv_title (sc_videos (evaluated ! i))) t) toc))
       \<and> (\<not> found r \<longrightarrow>
            anchor r = None
          \<and> (\<exists>names. fallbackChannels r = Some names \<and> length names \<le> 3
                \<and> names = map the (filter truthy
                             (map (\<lambda>p. authorName (pr_author p)) (take 3 playlists)))))
       \<and> (\<forall>s \<in> set evaluated. sc_playlist s \<in> set (take 5 playlists) \<and> 3 \<le> length (sc_videos s)
                         \<and> sc_score s = scorePlaylistCoverage w (sc_videos s) toc)"
proof -
  let ?q = "trim (subject @ ascii '' full course playlist '' @ suffix)"
  let ?st0 = "\<lparr>bestAnchor = None, bestScore = 0, performed = 1, scoredLog = []\<rparr>"
  obtain st tr2 where h: "huntLoop w toc (take 5 playlists) ?st0 (tr @ [Search ?q]) = (st, tr2)"
    by (cases "huntLoop w toc (take 5 playlists) ?st0 (tr @ [Search ?q])")
  have inv0: "huntInv ?st0" by (simp add: huntInv_def)
  have inv: "huntInv st" using huntLoop_inv[OF inv0, of w toc "take 5 playlists" "tr @ [Search ?q]"] h by simp
  let ?names = "map the (filter truthy (map (\<lambda>p. authorName (pr_author p)) (take 3 playlists)))"
  have res: "((r, evaluated), tr') =
     (if bestAnchor st \<noteq> None \<and> 50 \<le> bestScore st
      then ((\<lparr>found = True, anchor = bestAnchor st, fallbackChannels = None,
               searchesPerformed = performed st\<rparr>, scoredLog st), tr2)
      else ((\<lparr>found = False, anchor = None, fallbackChannels = Some ?names,
               searchesPerformed = performed st\<rparr>, scoredLog st), tr2))"
    using assms(1,2,3) h unfolding assms(4)[symmetric]
    by (simp add: huntForAnchor_def Let_def MIN_COVERAGE_THRESHOLD_def)
  have evaluated: "evaluated = scoredLog st" using res by (simp split: if_splits)
  have fnd: "found r \<longleftrightarrow> bestAnchor st \<noteq> None \<and> 50 \<le> bestScore st"
    using res by (auto split: if_splits)
  have le: "\<forall>t \<in> set evaluated. \<forall>d. scoreOf t = Some d \<longrightarrow> d \<le> bestScore st"
    using inv by (simp add: huntInv_def evaluated)
  have d: "\<forall>s \<in> set evaluated. sc_playlist s \<in> set (take 5 playlists) \<and> 3 \<le> length (sc_videos s)
                         \<and> sc_score s = scorePlaylistCoverage w (sc_videos s) toc"
    unfolding evaluated
    using huntLoop_log[of ?st0 "\<lambda>s. sc_playlist s \<in> set (take 5 playlists) \<and> 3 \<le> length (sc_videos s)
                         \<and> sc_score s = scorePlaylistCoverage w (sc_videos s) toc"
                     "take 5 playlists" w toc "tr @ [Search ?q]"] h
    by simp
  have a: "found r \<longleftrightarrow> (\<exists>s \<in> set evaluated. \<exists>c. scoreOf s = Some c \<and> 50 \<le> c)"
  proof
    assume "found r"
    then obtain a where a: "bestAnchor st = Some a" and b: "50 \<le> bestScore st" using fnd by auto
    then obtain i where "i < length evaluated" "scoreOf (evaluated ! i) = Some (bestScore st)"
      using inv by (auto simp: huntInv_def evaluated)
    then show "\<exists>s \<in> set evaluated. \<exists>c. scoreOf s = Some c \<and> 50 \<le> c"
      using b by (metis nth_mem)
  next
    assume "\<exists>s \<in> set evaluated. \<exists>c. scoreOf s = Some c \<and> 50 \<le> c"
    then obtain s c where "s \<in> set evaluated" "scoreOf s = Some c" "50 \<le> c" by blast
    then have b: "50 \<le> bestScore st" using le by fastforce
    then have "bestAnchor st \<noteq> None" using inv by (auto simp: huntInv_def split: option.splits)
    then show "found r" using fnd b by simp
  qed
  have b: "found r \<longrightarrow>
            (\<exists>i < length evaluated. \<exists>c a.
                anchor r = Some a \<and> a = anchorOf (evaluated ! i) c
              \<and> scoreOf (evaluated ! i) = Some c \<and> 50 \<le> c
              \<and> (\<forall>t \<in> set evaluated. \<forall>d. scoreOf t = Some d \<longrightarrow> d \<le> c)
              \<and> (\<forall>j < i. \<forall>d. scoreOf (evaluated ! j) = Some d \<longrightarrow> d < c)
              \<and> ap_playlistId a = pr_listId (sc_playlist (evaluated ! i))
              \<and> ap_playlistTitle a = pr_title (sc_playlist (evaluated ! i))
              \<and> ap_channelName a
                  = (case authorName (pr_author (sc_playlist (evaluated ! i))) of
                       None \<Rightarrow> ascii ''Unknown''
                     | Some n \<Rightarrow> if n = [] then ascii ''Unknown'' else n)
              \<and> ap_videoCount a = length (sc_videos (evaluated ! i))
              \<and> map av_videoId (ap_videos a) = map pv_videoId (sc_videos (evaluated ! i))
              \<and> map av_title (ap_videos a) = map pv_title (sc_videos (evaluated ! i))
              \<and> map av_durationSeconds (ap_videos a)
                  = map (\<lambda>v. case pv_duration v of None \<Rightarrow> 0 | Some d \<Rightarrow> d_seconds d)
                      (sc_videos (evaluated ! i))
              \<and> map av_durationDisplay (ap_videos a)
                  = map (\<lambda>v. case pv_duration v of
                                None \<Rightarrow> ascii ''0:00''
                              | Some d \<Rightarrow> if d_timestamp d = [] then ascii ''0:00'' else d_timestamp d)
                      (sc_videos (evaluated ! i))
              \<and> map av_position (ap_videos a) = [0..<length (sc_videos (evaluated ! i))]
              \<and> ap_coverageScore a = c
              \<and> ap_matchedTopics a
                  = filter (isMatched w (map pv_title (sc_videos (evaluated ! i)))) toc
              \<and> ap_unmatchedTopics a
                  = filter (\<lambda>t. \<not> isMatched w (map pv_title (sc_videos (evaluated ! i))) t) toc)"
  proof
    assume f: "found r"
    then obtain a where a: "bestAnchor st = Some a" and b: "50 \<le> bestScore st" using fnd by auto
    have ar: "anchor r = Some a" using res f a fnd by (auto split: if_splits)
    from inv a obtain i where i: "i < length evaluated" "a = anchorOf (evaluated ! i) (bestScore st)"
      "scoreOf (evaluated ! i) = Some (bestScore st)"
      "\<forall>j < i. \<forall>d. scoreOf (evaluated ! j) = Some d \<longrightarrow> d < bestScore st"
      by (auto simp: huntInv_def evaluated)
    have sc: "sc_score (evaluated ! i) = scorePlaylistCoverage w (sc_videos (evaluated ! i)) toc"
      using d i(1) nth_mem by blast
    note fields = anchorOf_fields[OF sc, of "bestScore st", folded i(2)]
    show "\<exists>i < length evaluated. \<exists>c a.
                anchor r = Some a \<and> a = anchorOf (evaluated ! i) c
              \<and> scoreOf (evaluated ! i) = Some c \<and> 50 \<le> c
              \<and> (\<forall>t \<in> set evaluated. \<forall>d. scoreOf t = Some d \<longrightarrow> d \<le> c)
              \<and> (\<forall>j < i. \<forall>d. scoreOf (evaluated ! j) = Some d \<longrightarrow> d < c)
              \<and> ap_playlistId a = pr_listId (sc_playlist (evaluated ! i))
              \<and> ap_playlistTitle a = pr_title (sc_playlist (evaluated ! i))
              \<and> ap_channelName a
                  = (case authorName (pr_author (sc_playlist (evaluated ! i))) of
                       None \<Rightarrow> ascii ''Unknown''
                     | Some n \<Rightarrow> if n = [] then ascii ''Unknown'' else n)
              \<and> ap_videoCount a = length (sc_videos (evaluated ! i))
              \<and> map av_videoId (ap_videos a) = map pv_videoId (sc_videos (evaluated ! i))
              \<and> map av_title (ap_videos a) = map pv_title (sc_videos (evaluated ! i))
              \<and> map av_durationSeconds (ap_videos a)
                  = map (\<lambda>v. case pv_duration v of None \<Rightarrow> 0 | Some d \<Rightarrow> d_seconds d)
                      (sc_videos (evaluated ! i))
              \<and> map av_durationDisplay (ap_videos a)
                  = map (\<lambda>v. case pv_duration v of
                                None \<Rightarrow> ascii ''0:00''
                              | Some d \<Rightarrow> if d_timestamp d = [] then ascii ''0:00'' else d_timestamp d)
                      (sc_videos (evaluated ! i))
              \<and> map av_position (ap_videos a) = [0..<length (sc_videos (evaluated ! i))]
              \<and> ap_coverageScore a = c
              \<and> ap_matchedTopics a
                  = filter (isMatched w (map pv_title (sc_videos (evaluated ! i)))) toc
              \<and> ap_unmatchedTopics a
                  = filter (\<lambda>t. \<not> isMatched w (map pv_title (sc_videos (evaluated ! i))) t) toc"
      using i ar b le fields
      by (intro exI[of _ i] conjI exI[of _ "bestScore st"] exI[of _ a]) (simp_all only:)
  qed
  have c: "\<not> found r \<longrightarrow>
            anchor r = None
          \<and> (\<exists>names. fallbackChannels r = Some names \<and> length names \<le> 3 \<and> names = ?names)"
    using res fnd length_channelNames[of playlists] by (auto split: if_splits)
  show ?thesis using a b c d by blast
qed

lemma anchorWorld_fields [simp]:
  "fuseSearch anchorWorld titles query
     = (if query = ascii ''Arrays'' \<and> titles \<noteq> [] then [(0, Some (1 / 10))] else [])"
  "ytSearch anchorWorld n q = Resolved (Some \<lparr>sr_videos = Some [], sr_playlists = Some [dsaPlaylist]\<rparr>)"
  "ytSearchList anchorWorld n q = Resolved (Some (Some dsaVideos))"
  by (simp_all add: anchorWorld_def quietWorld_def)

lemma jsPercent_half: "jsPercent 1 2 = 50"
  by code_simp

text \<open>
  The quotient and the product are doubles: for 57 of 200 topics the product is
  28.499999999999996 (not 28.5), and the score is 28.
\<close>

lemma jsPercent_tie: "jsPercent 57 200 = 28"
  by code_simp

lemma anchorWorld_matched:
  "isMatched anchorWorld (map pv_title dsaItems) topic \<longleftrightarrow> topic = ascii ''Arrays''"
proof (cases "topic = ascii ''Arrays''")
  case True
  have "fuse_search anchorWorld (map pv_title dsaItems) topic = [(0, Some (1 / 10))]"
    using True by (simp add: fuse_search_def dsaItems_def dsaVideos_def)
  then show ?thesis using True by (simp only: isMatched_def bestMatch_tenth) simp
next
  case False
  have "fuse_search anchorWorld (map pv_title dsaItems) topic = []"
    using False by (simp add: fuse_search_def)
  then show ?thesis using False by (simp add: isMatched_def bestMatch_def)
qed

lemma quietWorld_matched: "\<not> isMatched quietWorld titles topic"
  by (simp add: isMatched_def fuse_search_def bestMatch_def quietWorld_def)

lemma topics_distinct: "ascii ''Linked Lists'' \<noteq> ascii ''Arrays''"
  by (simp add: ascii_def)

theorem coverage_score_witness:
  "twoTopics \<noteq> [] \<and> length twoTopics < 2 ^ 32
   \<and> coverageScore (scorePlaylistCoverage anchorWorld dsaItems twoTopics) = Some 50
   \<and> \<bar>50 - 100 * of_nat (matchedCount anchorWorld dsaItems twoTopics) / of_nat (length twoTopics)\<bar>
       \<le> (1 / 2 :: rat)
   \<and> coverageScore (scorePlaylistCoverage quietWorld dsaItems twoTopics) = Some 0
   \<and> coverageScore (scorePlaylistCoverage anchorWorld dsaItems [ascii ''Arrays'']) = Some 100"
proof -
  have ne: "twoTopics \<noteq> []" "[ascii ''Arrays''] \<noteq> []" by (simp_all add: twoTopics_def)
  have m1: "matchedCount anchorWorld dsaItems twoTopics = 1"
    using topics_distinct by (simp add: matchedCount_def anchorWorld_matched twoTopics_def)
  have m0: "matchedCount quietWorld dsaItems twoTopics = 0"
    by (simp add: matchedCount_def quietWorld_matched)
  have m2: "matchedCount anchorWorld dsaItems [ascii ''Arrays''] = length [ascii ''Arrays'']"
    by (simp add: matchedCount_def anchorWorld_matched)
  have n2: "length twoTopics = 2" by (simp add: twoTopics_def)
  have lt: "length twoTopics < 2 ^ 32" by (simp add: n2)
  note t = coverage_score[OF ne(1), of anchorWorld dsaItems dsaItems]
  have "coverageScore (scorePlaylistCoverage anchorWorld dsaItems twoTopics)
          = Some (jsPercent (matchedCount anchorWorld dsaItems twoTopics) (length twoTopics))"
    using t by blast
  then have a: "coverageScore (scorePlaylistCoverage anchorWorld dsaItems twoTopics) = Some 50"
    by (simp only: m1 n2 jsPercent_half)
  have "\<bar>of_int (jsPercent (matchedCount anchorWorld dsaItems twoTopics) (length twoTopics))
          - 100 * of_nat (matchedCount anchorWorld dsaItems twoTopics) / of_nat (length twoTopics)\<bar>
        \<le> (1 / 2 :: rat)"
    using t lt by blast
  then have e: "\<bar>50 - 100 * of_nat (matchedCount anchorWorld dsaItems twoTopics) / of_nat (length twoTopics)\<bar>
       \<le> (1 / 2 :: rat)"
    by (simp add: m1 n2 jsPercent_half)
  have b: "coverageScore (scorePlaylistCoverage quietWorld dsaItems twoTopics) = Some 0"
    using coverage_score[OF ne(1), of quietWorld dsaItems dsaItems] m0 by blast
  have c: "coverageScore (scorePlaylistCoverage anchorWorld dsaItems [ascii ''Arrays'']) = Some 100"
    using coverage_score[OF ne(2), of anchorWorld dsaItems dsaItems] m2 by blast
  show ?thesis using ne lt a b c e by blast
qed

lemma dsa_hunt:
  "huntForAnchor anchorWorld (ascii ''DSA'') twoTopics [] []
     = ((\<lparr>found = True,
           anchor = Some (mkAnchor dsaPlaylist dsaItems
                            (scorePlaylistCoverage anchorWorld dsaItems twoTopics) 50),
           fallbackChannels = None, searchesPerformed = 2\<rparr>,
         [\<lparr>sc_playlist = dsaPlaylist, sc_videos = dsaItems,
           sc_score = scorePlaylistCoverage anchorWorld dsaItems twoTopics\<rparr>]),
        [Search (trim (ascii ''DSA'' @ ascii '' full course playlist '' @ [])),
         ListFetch (ascii ''PLdsa'')])"
proof -
  have g: "getPlaylistVideos anchorWorld (pr_listId dsaPlaylist) tr
             = (dsaItems, tr @ [ListFetch (ascii ''PLdsa'')])" for tr
    by (simp add: getPlaylistVideos_def dsaItems_def dsaPlaylist_def)
  have l: "\<not> length dsaItems < 3" by (simp add: dsaItems_def dsaVideos_def)
  have m1: "matchedCount anchorWorld dsaItems twoTopics = 1"
    using topics_distinct by (simp add: matchedCount_def anchorWorld_matched twoTopics_def)
  have n2: "length twoTopics = 2" "twoTopics \<noteq> []" by (simp_all add: twoTopics_def)
  have "coverageScore (scorePlaylistCoverage anchorWorld dsaItems twoTopics)
          = Some (jsPercent (matchedCount anchorWorld dsaItems twoTopics) (length twoTopics))"
    using n2(2) by (simp add: scorePlaylistCoverage_eq)
  then have c: "coverageScore (scorePlaylistCoverage anchorWorld dsaItems twoTopics) = Some 50"
    by (simp only: m1 n2 jsPercent_half)
  show ?thesis
    using l by (simp add: huntForAnchor_def Let_def g c MIN_COVERAGE_THRESHOLD_def)
qed

lemma dsa_coverage_half:
  "coverageScore (scorePlaylistCoverage anchorWorld dsaItems twoTopics) = Some 50"
proof -
  have m1: "matchedCount anchorWorld dsaItems twoTopics = 1"
    using topics_distinct by (simp add: matchedCount_def anchorWorld_matched twoTopics_def)
  have n2: "length twoTopics = 2" "twoTopics \<noteq> []" by (simp_all add: twoTopics_def)
  have "coverageScore (scorePlaylistCoverage anchorWorld dsaItems twoTopics)
          = Some (jsPercent (matchedCount anchorWorld dsaItems twoTopics) (length twoTopics))"
    using n2(2) by (simp add: scorePlaylistCoverage_eq)
  then show ?thesis by (simp only: m1 n2 jsPercent_half)
qed

theorem huntForAnchor_threshold_witness:
  "found (fst (fst (huntForAnchor anchorWorld (ascii ''DSA'') twoTopics [] [])))
   \<and> map scoreOf (snd (fst (huntForAnchor anchorWorld (ascii ''DSA'') twoTopics [] []))) = [Some 50]
   \<and> map_option ap_playlistId (anchor (fst (fst (huntForAnchor anchorWorld (ascii ''DSA'') twoTopics [] []))))
       = Some (ascii ''PLdsa'')
   \<and> map_option ap_playlistTitle (anchor (fst (fst (huntForAnchor anchorWorld (ascii ''DSA'') twoTopics [] []))))
       = Some (ascii ''DSA full course'')
   \<and> map_option ap_channelName (anchor (fst (fst (huntForAnchor anchorWorld (ascii ''DSA'') twoTopics [] []))))
       = Some (ascii ''Prof'')
   \<and> map_option ap_videoCount (anchor (fst (fst (huntForAnchor anchorWorld (ascii ''DSA'') twoTopics [] []))))
       = Some 3
   \<and> map_option (\<lambda>a. map av_videoId (ap_videos a))
       (anchor (fst (fst (huntForAnchor anchorWorld (ascii ''DSA'') twoTopics [] []))))
       = Some [ascii ''ddddddddddd1'', ascii ''ddddddddddd2'', ascii ''ddddddddddd3'']
   \<and> map_option (\<lambda>a. map av_position (ap_videos a))
       (anchor (fst (fst (huntForAnchor anchorWorld (ascii ''DSA'') twoTopics [] []))))
       = Some [0, 1, 2]
   \<and> map_option ap_coverageScore (anchor (fst (fst (huntForAnchor anchorWorld (ascii ''DSA'') twoTopics [] []))))
       = Some 50
   \<and> map_option ap_matchedTopics (anchor (fst (fst (huntForAnchor anchorWorld (ascii ''DSA'') twoTopics [] []))))
       = Some [ascii ''Arrays'']
   \<and> map_option ap_unmatchedTopics (anchor (fst (fst (huntForAnchor anchorWorld (ascii ''DSA'') twoTopics [] []))))
       = Some [ascii ''Linked Lists'']
   \<and> \<not> found (fst (fst (huntForAnchor anchorWorld (ascii ''DSA'') [ascii ''Linked Lists''] [] [])))
   \<and> anchor (fst (fst (huntForAnchor anchorWorld (ascii ''DSA'') [ascii ''Linked Lists''] [] []))) = None
   \<and> fallbackChannels (fst (fst (huntForAnchor anchorWorld (ascii ''DSA'') [ascii ''Linked Lists''] [] [])))
       = Some [ascii ''Prof'']"
proof -
  have p1: "ytSearch anchorWorld (length ([] :: call list))
              (trim (ascii ''DSA'' @ ascii '' full course playlist '' @ []))
            = Resolved (Some \<lparr>sr_videos = Some [], sr_playlists = Some [dsaPlaylist]\<rparr>)"
    by simp
  have p2: "sr_playlists \<lparr>sr_videos = Some [], sr_playlists = Some [dsaPlaylist]\<rparr> = Some [dsaPlaylist]"
    by simp
  have p3: "[dsaPlaylist] \<noteq> []" by simp
  obtain r ev tr' where h: "huntForAnchor anchorWorld (ascii ''DSA'') twoTopics [] [] = ((r, ev), tr')"
    by (metis surj_pair)
  have ev: "ev = [\<lparr>sc_playlist = dsaPlaylist, sc_videos = dsaItems,
                    sc_score = scorePlaylistCoverage anchorWorld dsaItems twoTopics\<rparr>]"
    using h dsa_hunt by simp
  have sc: "map scoreOf ev = [Some 50]"
    using ev dsa_coverage_half by (simp add: scoreOf_def)
  note t = huntForAnchor_threshold[OF p1 p2 p3 h]
  have f: "found r" using t sc by (cases ev) auto
  from t f obtain i c a where i: "i < length ev" and a: "anchor r = Some a"
    and sci: "scoreOf (ev ! i) = Some c"
    and f1: "ap_playlistId a = pr_listId (sc_playlist (ev ! i))"
    and f2: "ap_playlistTitle a = pr_title (sc_playlist (ev ! i))"
    and f3: "ap_channelName a
                  = (case authorName (pr_author (sc_playlist (ev ! i))) of
                       None \<Rightarrow> ascii ''Unknown''
                     | Some n \<Rightarrow> if n = [] then ascii ''Unknown'' else n)"
    and f4: "ap_videoCount a = length (sc_videos (ev ! i))"
    and f5: "map av_videoId (ap_videos a) = map pv_videoId (sc_videos (ev ! i))"
    and f6: "map av_position (ap_videos a) = [0..<length (sc_videos (ev ! i))]"
    and f7: "ap_coverageScore a = c"
    and f8: "ap_matchedTopics a = filter (isMatched anchorWorld (map pv_title (sc_videos (ev ! i)))) twoTopics"
    and f9: "ap_unmatchedTopics a
               = filter (\<lambda>t. \<not> isMatched anchorWorld (map pv_title (sc_videos (ev ! i))) t) twoTopics"
    by blast
  have i0: "ev ! i = \<lparr>sc_playlist = dsaPlaylist, sc_videos = dsaItems,
                    sc_score = scorePlaylistCoverage anchorWorld dsaItems twoTopics\<rparr>"
    using i ev by simp
  have c50: "c = 50" using sci i0 dsa_coverage_half by (simp add: scoreOf_def)
  have upt3: "[0..<3] = [0, 1, 2]" by (simp add: upt_rec)
  have g1: "ap_playlistId a = ascii ''PLdsa''" using f1 by (simp add: i0 dsaPlaylist_def)
  have g2: "ap_playlistTitle a = ascii ''DSA full course''" using f2 by (simp add: i0 dsaPlaylist_def)
  have g3: "ap_channelName a = ascii ''Prof''"
    using f3 by (simp add: i0 dsaPlaylist_def authorName_def ascii_def)
  have g4: "ap_videoCount a = 3" using f4 by (simp add: i0 dsaItems_def dsaVideos_def)
  have g5: "map av_videoId (ap_videos a) = [ascii ''ddddddddddd1'', ascii ''ddddddddddd2'', ascii ''ddddddddddd3'']"
    using f5 by (simp add: i0 dsaItems_def dsaVideos_def rawVideo_def)
  have g6: "map av_position (ap_videos a) = [0, 1, 2]"
    using f6 by (simp add: i0 dsaItems_def dsaVideos_def upt3)
  have g7: "ap_coverageScore a = 50" using f7 c50 by simp
  have g8: "ap_matchedTopics a = [ascii ''Arrays'']"
    using f8 topics_distinct by (simp add: i0 anchorWorld_matched twoTopics_def)
  have g9: "ap_unmatchedTopics a = [ascii ''Linked Lists'']"
    using f9 topics_distinct by (simp add: i0 anchorWorld_matched twoTopics_def)
  obtain r2 ev2 tr2 where h2: "huntForAnchor anchorWorld (ascii ''DSA'') [ascii ''Linked Lists''] [] []
                                 = ((r2, ev2), tr2)"
    by (metis surj_pair)
  have g: "getPlaylistVideos anchorWorld (pr_listId dsaPlaylist) tr
             = (dsaItems, tr @ [ListFetch (ascii ''PLdsa'')])" for tr
    by (simp add: getPlaylistVideos_def dsaItems_def dsaPlaylist_def)
  have l: "\<not> length dsaItems < 3" by (simp add: dsaItems_def dsaVideos_def)
  have m0: "matchedCount anchorWorld dsaItems [ascii ''Linked Lists''] = 0"
    using topics_distinct by (simp add: matchedCount_def anchorWorld_matched)
  have c0: "coverageScore (scorePlaylistCoverage anchorWorld dsaItems [ascii ''Linked Lists'']) = Some 0"
    using m0 by (simp add: scorePlaylistCoverage_eq jsPercent_0)
  have ev2: "map scoreOf ev2 = [Some 0]"
    using h2 l by (auto simp: huntForAnchor_def Let_def g c0 scoreOf_def MIN_COVERAGE_THRESHOLD_def)
  note t2 = huntForAnchor_threshold[OF p1 p2 p3 h2]
  have nf: "\<not> found r2" using t2 ev2 by (cases ev2) auto
  have an: "anchor r2 = None" using t2 nf by blast
  have "fallbackChannels r2 = Some (map the (filter truthy
               (map (\<lambda>p. authorName (pr_author p)) (take 3 [dsaPlaylist]))))"
    using t2 nf by blast
  then have fb: "fallbackChannels r2 = Some [ascii ''Prof'']"
    by (simp add: dsaPlaylist_def authorName_def truthy_def ascii_def)
  show ?thesis using f sc nf an fb a g1 g2 g3 g4 g5 g6 g7 g8 g9 by (simp add: h h2)
qed

end
